theory Spec2Isabelle
  imports Main "HOL-Library.Word"
begin

unbundle bit_operations_syntax

section \<open>Machine types\<close>

type_synonym guint8 = "8 word"
type_synonym guint32 = "32 word"
type_synonym guint64 = "64 word"
type_synonym gint = "32 word"

section \<open>GstNalBs: the bit reader\<close>

text \<open>
  The reader of \<^verbatim>\<open>gsth264parse.c\<close>: \<open>bs_data\<close> holds the bytes from \<^verbatim>\<open>bs->data\<close> up
  to \<^verbatim>\<open>bs->end\<close>, \<open>bs_head\<close> the number of unread bits in the cache, \<open>bs_cache\<close> the
  64-bit cache. \<^verbatim>\<open>head\<close> is a \<^verbatim>\<open>gint\<close> that never goes below zero and is compared with the
  unsigned \<^verbatim>\<open>n\<close>, so both are natural numbers here.
\<close>

record GstNalBs =
  bs_data :: "guint8 list"
  bs_head :: nat
  bs_cache :: guint64

definition gst_nal_bs_init :: "guint8 list \<Rightarrow> GstNalBs" where
  "gst_nal_bs_init d = \<lparr>bs_data = d, bs_head = 0, bs_cache = 0xffffffff\<rparr>"

text \<open>
  The refill loop of \<^verbatim>\<open>gst_nal_bs_read\<close>, with its \<^verbatim>\<open>goto next_byte\<close>: a byte 0x03 met
  while the low 16 bits of the cache are zero is skipped, and the byte after it goes to
  the cache without the test. The result is the reader and the (possibly truncated)
  number of bits \<^verbatim>\<open>n\<close>.
\<close>

function bs_fill :: "GstNalBs \<Rightarrow> nat \<Rightarrow> GstNalBs \<times> nat" where
  "bs_fill bs n =
     (if bs_head bs < n then
        (case bs_data bs of
           [] \<Rightarrow> (bs, bs_head bs)
         | byte # rest \<Rightarrow>
             if byte = 0x03 \<and> bs_cache bs AND 0xffff = 0 then
               (case rest of
                  [] \<Rightarrow> (bs\<lparr>bs_data := []\<rparr>, bs_head bs)
                | byte2 # rest2 \<Rightarrow>
                    bs_fill (bs\<lparr>bs_data := rest2,
                                bs_cache := push_bit 8 (bs_cache bs) OR ucast byte2,
                                bs_head := bs_head bs + 8\<rparr>) n)
             else
               bs_fill (bs\<lparr>bs_data := rest,
                           bs_cache := push_bit 8 (bs_cache bs) OR ucast byte,
                           bs_head := bs_head bs + 8\<rparr>) n)
      else (bs, n))"
  by pat_completeness auto
termination
  by (relation "measure (\<lambda>(bs, n). length (bs_data bs))") auto

declare bs_fill.simps [simp del]

text \<open>
  The rest of \<^verbatim>\<open>gst_nal_bs_read\<close>, on the refilled reader: \<open>bs_shifted\<close> brings the
  bits down by \<^verbatim>\<open>shift = head - n\<close> and cuts the cache to the 32 bits of \<^verbatim>\<open>res\<close>,
  \<open>bs_masked\<close> masks them when \<^verbatim>\<open>n < 32\<close>, and \<^verbatim>\<open>head\<close> becomes \<^verbatim>\<open>shift\<close>.
\<close>

definition bs_shifted :: "GstNalBs \<Rightarrow> nat \<Rightarrow> guint32" where
  "bs_shifted bs n =
     (if bs_head bs - n > 0 then ucast (drop_bit (bs_head bs - n) (bs_cache bs))
      else ucast (bs_cache bs))"

definition bs_masked :: "GstNalBs \<Rightarrow> nat \<Rightarrow> guint32" where
  "bs_masked bs n =
     (if n < 32 then bs_shifted bs n AND (push_bit n 1 - 1) else bs_shifted bs n)"

definition gst_nal_bs_read :: "GstNalBs \<Rightarrow> nat \<Rightarrow> guint32 \<times> GstNalBs" where
  "gst_nal_bs_read bs n =
     (if n = 0 then (0, bs)
      else
        (case bs_fill bs n of
           (bs1, n1) \<Rightarrow> (bs_masked bs1 n1, bs1\<lparr>bs_head := bs_head bs1 - n1\<rparr>)))"

definition gst_nal_bs_eos :: "GstNalBs \<Rightarrow> bool" where
  "gst_nal_bs_eos bs \<longleftrightarrow> bs_data bs = [] \<and> bs_head bs = 0"

text \<open>
  \<^verbatim>\<open>while (gst_nal_bs_read (bs, 1) == 0 && !gst_nal_bs_eos (bs) && i < 32) i++;\<close>
  The bit is read before the other two tests, also on the round that leaves the loop.
\<close>

function ue_count_zeros :: "GstNalBs \<Rightarrow> nat \<Rightarrow> nat \<times> GstNalBs" where
  "ue_count_zeros bs i =
     (case gst_nal_bs_read bs 1 of
        (b, bs1) \<Rightarrow>
          if b = 0 \<and> \<not> gst_nal_bs_eos bs1 \<and> i < 32 then ue_count_zeros bs1 (i + 1)
          else (i, bs1))"
  by pat_completeness auto
termination
  by (relation "measure (\<lambda>(bs, i). 32 - i)") auto

declare ue_count_zeros.simps [simp del]

text \<open>
  \<^verbatim>\<open>return ((1 << i) - 1 + gst_nal_bs_read (bs, i));\<close> in 32-bit arithmetic. For
  \<open>i\<close> of 31 and 32 the C shift is outside what the language defines; the model takes the
  wrap-around value of \<open>push_bit\<close>.
\<close>

definition gst_nal_bs_read_ue :: "GstNalBs \<Rightarrow> gint \<times> GstNalBs" where
  "gst_nal_bs_read_ue bs =
     (case ue_count_zeros bs 0 of
        (i, bs1) \<Rightarrow>
          (case gst_nal_bs_read bs1 i of
             (r, bs2) \<Rightarrow> (push_bit i 1 - 1 + r, bs2)))"

text \<open>A sequence of bit-read requests, answered in order.\<close>

fun bs_read_seq :: "GstNalBs \<Rightarrow> nat list \<Rightarrow> guint32 list" where
  "bs_read_seq bs [] = []"
| "bs_read_seq bs (n # ns) =
     (case gst_nal_bs_read bs n of (r, bs1) \<Rightarrow> r # bs_read_seq bs1 ns)"

subsection \<open>The reference reader of the specification\<close>

text \<open>
  The same reader with the emulation-prevention test taken out: every byte of the range
  goes to the cache.
\<close>

function plain_fill :: "GstNalBs \<Rightarrow> nat \<Rightarrow> GstNalBs \<times> nat" where
  "plain_fill bs n =
     (if bs_head bs < n then
        (case bs_data bs of
           [] \<Rightarrow> (bs, bs_head bs)
         | byte # rest \<Rightarrow>
             plain_fill (bs\<lparr>bs_data := rest,
                            bs_cache := push_bit 8 (bs_cache bs) OR ucast byte,
                            bs_head := bs_head bs + 8\<rparr>) n)
      else (bs, n))"
  by pat_completeness auto
termination
  by (relation "measure (\<lambda>(bs, n). length (bs_data bs))") auto

declare plain_fill.simps [simp del]

definition plain_read :: "GstNalBs \<Rightarrow> nat \<Rightarrow> guint32 \<times> GstNalBs" where
  "plain_read bs n =
     (if n = 0 then (0, bs)
      else
        (case plain_fill bs n of
           (bs1, n1) \<Rightarrow> (bs_masked bs1 n1, bs1\<lparr>bs_head := bs_head bs1 - n1\<rparr>)))"

fun plain_read_seq :: "GstNalBs \<Rightarrow> nat list \<Rightarrow> guint32 list" where
  "plain_read_seq bs [] = []"
| "plain_read_seq bs (n # ns) =
     (case plain_read bs n of (r, bs1) \<Rightarrow> r # plain_read_seq bs1 ns)"

text \<open>
  The transformed range of the specification: each occurrence of the byte sequence
  00 00 03 in the range, found from left to right, is reduced to 00 00.
\<close>

fun reduce_00_00_03 :: "guint8 list \<Rightarrow> guint8 list" where
  "reduce_00_00_03 (a # b # c # rest) =
     (if a = 0 \<and> b = 0 \<and> c = 0x03 then a # b # reduce_00_00_03 rest
      else a # reduce_00_00_03 (b # c # rest))"
| "reduce_00_00_03 xs = xs"

subsection \<open>The bits a reader still has to deliver\<close>

text \<open>
  The lowest \<open>n\<close> bits of a word, most significant first.
\<close>

primrec word_bits :: "nat \<Rightarrow> 'a::len word \<Rightarrow> bool list" where
  "word_bits 0 w = []"
| "word_bits (Suc n) w = bit w n # word_bits n w"

text \<open>
  The bytes of the range that the refill loop of \<^verbatim>\<open>gst_nal_bs_read\<close> will move to the
  cache, given the cache it starts with: a byte 03 met while the cache ends in 00 00 is
  left out, and the byte after it is taken without the test.
\<close>

fun ep_bytes :: "guint64 \<Rightarrow> guint8 list \<Rightarrow> guint8 list" where
  "ep_bytes c [] = []"
| "ep_bytes c (b # rest) =
     (if b = 0x03 \<and> c AND 0xffff = 0 then
        (case rest of
           [] \<Rightarrow> []
         | b2 # rest2 \<Rightarrow> b2 # ep_bytes (push_bit 8 c OR ucast b2) rest2)
      else b # ep_bytes (push_bit 8 c OR ucast b) rest)"

text \<open>
  The bits that the reader will deliver: those waiting in the cache, then those of the
  bytes it will move there.
\<close>

definition bs_bits :: "GstNalBs \<Rightarrow> bool list" where
  "bs_bits bs =
     word_bits (bs_head bs) (bs_cache bs)
       @ concat (map (word_bits 8) (ep_bytes (bs_cache bs) (bs_data bs)))"

text \<open>The number that a bit list writes, most significant bit first.\<close>

primrec bl_val :: "bool list \<Rightarrow> nat" where
  "bl_val [] = 0"
| "bl_val (b # bs) = of_bool b * 2 ^ length bs + bl_val bs"

subsection \<open>The Exp-Golomb encoder of the specification\<close>

text \<open>
  The standard unsigned Exp-Golomb code of \<open>v\<close>, after the words of the specification:
  with \<open>k\<close> the number of bits of \<open>v + 1\<close> below its leading one, \<open>k\<close> zero bits, a one
  bit, then the remainder \<open>v + 1 - 2 ^ k\<close> on \<open>k\<close> bits. The source has no encoder.
\<close>

fun bit_length :: "nat \<Rightarrow> nat" where
  "bit_length n = (if n = 0 then 0 else Suc (bit_length (n div 2)))"

declare bit_length.simps [simp del]

primrec nat_bits :: "nat \<Rightarrow> nat \<Rightarrow> bool list" where
  "nat_bits 0 x = []"
| "nat_bits (Suc k) x = (x div 2 ^ k mod 2 = 1) # nat_bits k x"

definition ue_zeros :: "nat \<Rightarrow> nat" where
  "ue_zeros v = bit_length (v + 1) - 1"

definition ue_bits :: "nat \<Rightarrow> bool list" where
  "ue_bits v =
     replicate (ue_zeros v) False @ True # nat_bits (ue_zeros v) (v + 1 - 2 ^ ue_zeros v)"

text \<open>
  The bit string as a byte range, most significant bit first, the last byte filled up with
  zero bits.
\<close>

definition byte_of_bits :: "bool list \<Rightarrow> guint8" where
  "byte_of_bits bs = of_nat (bl_val bs)"

function pack_bits :: "bool list \<Rightarrow> guint8 list" where
  "pack_bits bs =
     (if bs = [] then []
      else byte_of_bits (take 8 (bs @ replicate 7 False)) # pack_bits (drop 8 bs))"
  by pat_completeness auto
termination
  by (relation "measure length") auto

declare pack_bits.simps [simp del]

text \<open>A byte range in which 00 00 03 occurs.\<close>

fun has_ep :: "guint8 list \<Rightarrow> bool" where
  "has_ep (a # b # c # rest) = ((a = 0 \<and> b = 0 \<and> c = 0x03) \<or> has_ep (b # c # rest))"
| "has_ep xs = False"

section \<open>Parameter sets\<close>

text \<open>
  \<^verbatim>\<open>gboolean\<close> is a \<^verbatim>\<open>gint\<close>; a flag field holds what \<^verbatim>\<open>gst_nal_bs_read\<close>
  returned and is tested against zero.
\<close>

type_synonym gboolean = "32 word"
type_synonym GstClockTime = "64 word"

definition GST_CLOCK_TIME_NONE :: GstClockTime where
  "GST_CLOCK_TIME_NONE = - 1"

record GstH264Sps =
  profile_idc :: guint8
  level_idc :: guint8
  sps_id :: guint8
  pic_order_cnt_type :: guint8
  log2_max_frame_num_minus4 :: guint8
  frame_mbs_only_flag :: gboolean
  log2_max_pic_order_cnt_lsb_minus4 :: guint8
  frame_cropping_flag :: gboolean
  vui_parameters_present_flag :: gboolean
  timing_info_present_flag :: gboolean
  num_units_in_tick :: guint32
  time_scale :: guint32
  fixed_frame_rate_flag :: gboolean
  nal_hrd_parameters_present_flag :: gboolean
  vcl_hrd_parameters_present_flag :: gboolean
  cpb_cnt_minus1 :: guint8
  initial_cpb_removal_delay_length_minus1 :: gint
  cpb_removal_delay_length_minus1 :: gint
  dpb_output_delay_length_minus1 :: gint
  time_offset_length_minus1 :: gboolean
  pic_struct_present_flag :: gboolean

text \<open>The record that \<^verbatim>\<open>g_slice_new0 (GstH264Sps)\<close> returns: every field zero.\<close>

definition new0_sps :: GstH264Sps where
  "new0_sps = \<lparr>profile_idc = 0, level_idc = 0, sps_id = 0, pic_order_cnt_type = 0,
     log2_max_frame_num_minus4 = 0, frame_mbs_only_flag = 0,
     log2_max_pic_order_cnt_lsb_minus4 = 0, frame_cropping_flag = 0,
     vui_parameters_present_flag = 0, timing_info_present_flag = 0,
     num_units_in_tick = 0, time_scale = 0, fixed_frame_rate_flag = 0,
     nal_hrd_parameters_present_flag = 0, vcl_hrd_parameters_present_flag = 0,
     cpb_cnt_minus1 = 0, initial_cpb_removal_delay_length_minus1 = 0,
     cpb_removal_delay_length_minus1 = 0, dpb_output_delay_length_minus1 = 0,
     time_offset_length_minus1 = 0, pic_struct_present_flag = 0\<rparr>"

record GstH264Pps =
  pps_pps_id :: guint8
  pps_sps_id :: guint8

definition new0_pps :: GstH264Pps where
  "new0_pps = \<lparr>pps_pps_id = 0, pps_sps_id = 0\<rparr>"

subsection \<open>Buffers and the decode queue\<close>

record GstBuffer =
  buf_data :: "guint8 list"
  buf_timestamp :: GstClockTime
  buf_discont :: bool
  buf_delta_unit :: bool

record GstNalList =
  nal_type :: gint
  nal_ref_idc :: gint
  first_mb_in_slice :: gint
  slice_type :: gint
  slice :: bool
  i_frame :: bool
  buffer :: GstBuffer

text \<open>\<^verbatim>\<open>gst_nal_list_new\<close>: \<^verbatim>\<open>g_slice_new0\<close>, then the buffer.\<close>

definition gst_nal_list_new :: "GstBuffer \<Rightarrow> GstNalList" where
  "gst_nal_list_new b = \<lparr>nal_type = 0, nal_ref_idc = 0, first_mb_in_slice = 0,
     slice_type = 0, slice = False, i_frame = False, buffer = b\<rparr>"

subsection \<open>The element\<close>

text \<open>
  The fields of \<^verbatim>\<open>GstH264Parse\<close> that the parsing functions use (its declaration is in
  the header, which is not among the sources; the fields are those the C file reads and
  writes). The two tables are arrays of pointers: an entry is \<open>None\<close> for \<^verbatim>\<open>NULL\<close>.
  \<^verbatim>\<open>h->sps\<close> and \<^verbatim>\<open>h->pps\<close> point to entries of the tables, so they are the
  entry's index; every function below keeps them at an index whose entry is there.
  \<open>adapter\<close> is the bytes held by the \<^verbatim>\<open>GstAdapter\<close>, \<open>pushed\<close> the buffers handed
  to \<^verbatim>\<open>gst_pad_push\<close>, oldest first.
\<close>

record GstH264Parse =
  split_packetized :: bool
  packetized :: bool
  nal_length_size :: nat
  discont :: bool
  adapter :: "guint8 list"
  sps_buffers :: "nat \<Rightarrow> GstH264Sps option"
  sps :: "nat option"
  pps_buffers :: "nat \<Rightarrow> GstH264Pps option"
  pps :: "nat option"
  initial_cpb_removal_delay :: "nat \<Rightarrow> gint"
  sei_cpb_removal_delay :: guint32
  sei_dpb_output_delay :: guint32
  sei_pic_struct :: guint32
  sei_ct_type :: guint32
  dts :: GstClockTime
  ts_trn_nb :: GstClockTime
  gather :: "GstBuffer list"
  decode :: "GstNalList list"
  decode_len :: gint
  prev :: "GstBuffer option"
  have_i_frame :: bool
  pushed :: "GstBuffer list"

text \<open>
  Modelled from the spec: the table sizes \<^verbatim>\<open>MAX_SPS_COUNT\<close> and \<^verbatim>\<open>MAX_PPS_COUNT\<close> are
  macros of the missing header; the specification keys an SPS by an id in 0..31 and a PPS
  by an id in 0..255.
\<close>

definition MAX_SPS_COUNT :: nat where
  "MAX_SPS_COUNT = 32"

definition MAX_PPS_COUNT :: nat where
  "MAX_PPS_COUNT = 256"

text \<open>
  \<^verbatim>\<open>gst_h264_parse_get_sps\<close>: \<open>None\<close> for an id beyond the table; otherwise the entry,
  created zeroed when it was \<^verbatim>\<open>NULL\<close> (\<open>sps_or_new\<close>), and \<^verbatim>\<open>h->sps\<close> set to it.
  \<^verbatim>\<open>gst_h264_parse_get_pps\<close> does the same on the PPS table.
\<close>

definition sps_or_new :: "GstH264Parse \<Rightarrow> guint8 \<Rightarrow> GstH264Sps" where
  "sps_or_new h i = (case sps_buffers h (unat i) of None \<Rightarrow> new0_sps | Some s0 \<Rightarrow> s0)"

definition pps_or_new :: "GstH264Parse \<Rightarrow> guint8 \<Rightarrow> GstH264Pps" where
  "pps_or_new h i = (case pps_buffers h (unat i) of None \<Rightarrow> new0_pps | Some p0 \<Rightarrow> p0)"

definition gst_h264_parse_get_sps ::
  "GstH264Parse \<Rightarrow> guint8 \<Rightarrow> GstH264Sps option \<times> GstH264Parse" where
  "gst_h264_parse_get_sps h i =
     (if unat i \<ge> MAX_SPS_COUNT then (None, h)
      else
        (Some (sps_or_new h i),
         h\<lparr>sps_buffers := (sps_buffers h)(unat i \<mapsto> sps_or_new h i), sps := Some (unat i)\<rparr>))"

definition gst_h264_parse_get_pps ::
  "GstH264Parse \<Rightarrow> guint8 \<Rightarrow> GstH264Pps option \<times> GstH264Parse" where
  "gst_h264_parse_get_pps h i =
     (if unat i \<ge> MAX_PPS_COUNT then (None, h)
      else
        (Some (pps_or_new h i),
         h\<lparr>pps_buffers := (pps_buffers h)(unat i \<mapsto> pps_or_new h i), pps := Some (unat i)\<rparr>))"

text \<open>A write through the pointer \<^verbatim>\<open>sps\<close> obtained for id \<open>i\<close> lands in the table.\<close>

definition store_sps :: "GstH264Parse \<Rightarrow> guint8 \<Rightarrow> GstH264Sps \<Rightarrow> GstH264Parse" where
  "store_sps h i s = h\<lparr>sps_buffers := (sps_buffers h)(unat i \<mapsto> s)\<rparr>"

definition store_pps :: "GstH264Parse \<Rightarrow> guint8 \<Rightarrow> GstH264Pps \<Rightarrow> GstH264Parse" where
  "store_pps h i p = h\<lparr>pps_buffers := (pps_buffers h)(unat i \<mapsto> p)\<rparr>"

text \<open>Reads whose value the decoders drop.\<close>

definition bs_skip :: "GstNalBs \<Rightarrow> nat \<Rightarrow> GstNalBs" where
  "bs_skip bs n = snd (gst_nal_bs_read bs n)"

definition bs_skip_ue :: "GstNalBs \<Rightarrow> GstNalBs" where
  "bs_skip_ue bs = snd (gst_nal_bs_read_ue bs)"

subsection \<open>HRD and VUI parameters\<close>

text \<open>
  \<^verbatim>\<open>gst_vui_decode_hrd_parameters\<close> and \<^verbatim>\<open>gst_sps_decode_vui\<close> reach for \<^verbatim>\<open>h->sps\<close>
  only; they are given the record it points to and return it with the fields they wrote.
\<close>

primrec hrd_sched_sel :: "nat \<Rightarrow> GstNalBs \<Rightarrow> GstNalBs" where
  "hrd_sched_sel 0 bs = bs"
| "hrd_sched_sel (Suc k) bs = hrd_sched_sel k (bs_skip (bs_skip_ue (bs_skip_ue bs)) 1)"

definition hrd_delay_lengths :: "GstH264Sps \<Rightarrow> GstNalBs \<Rightarrow> GstH264Sps \<times> GstNalBs" where
  "hrd_delay_lengths s bs =
     (case gst_nal_bs_read bs 5 of (a, bs) \<Rightarrow>
      case gst_nal_bs_read bs 5 of (b, bs) \<Rightarrow>
      case gst_nal_bs_read bs 5 of (c, bs) \<Rightarrow>
      case gst_nal_bs_read bs 5 of (d, bs) \<Rightarrow>
        (s\<lparr>initial_cpb_removal_delay_length_minus1 := a,
           cpb_removal_delay_length_minus1 := b,
           dpb_output_delay_length_minus1 := c,
           time_offset_length_minus1 := d\<rparr>, bs))"

definition gst_vui_decode_hrd_parameters ::
  "GstH264Sps \<Rightarrow> GstNalBs \<Rightarrow> bool \<times> GstH264Sps \<times> GstNalBs" where
  "gst_vui_decode_hrd_parameters s bs =
     (case gst_nal_bs_read_ue bs of
        (v, bs) \<Rightarrow>
          if (ucast v :: guint8) > 31 then (False, s\<lparr>cpb_cnt_minus1 := ucast v\<rparr>, bs)
          else
            (True,
             hrd_delay_lengths (s\<lparr>cpb_cnt_minus1 := ucast v\<rparr>)
               (hrd_sched_sel (unat (ucast v :: guint8) + 1) (bs_skip (bs_skip bs 4) 4))))"

definition vui_aspect_ratio :: "GstNalBs \<Rightarrow> GstNalBs" where
  "vui_aspect_ratio bs =
     (case gst_nal_bs_read bs 1 of
        (f, bs) \<Rightarrow>
          if f \<noteq> 0 then
            (case gst_nal_bs_read bs 8 of
               (idc, bs) \<Rightarrow> if idc = 255 then bs_skip (bs_skip bs 16) 16 else bs)
          else bs)"

definition vui_overscan :: "GstNalBs \<Rightarrow> GstNalBs" where
  "vui_overscan bs =
     (case gst_nal_bs_read bs 1 of (f, bs) \<Rightarrow> if f \<noteq> 0 then bs_skip bs 1 else bs)"

definition vui_video_signal :: "GstNalBs \<Rightarrow> GstNalBs" where
  "vui_video_signal bs =
     (case gst_nal_bs_read bs 1 of
        (f, bs) \<Rightarrow>
          if f \<noteq> 0 then
            (case gst_nal_bs_read (bs_skip (bs_skip bs 3) 1) 1 of
               (g, bs) \<Rightarrow> if g \<noteq> 0 then bs_skip (bs_skip (bs_skip bs 8) 8) 8 else bs)
          else bs)"

definition vui_chroma_loc :: "GstNalBs \<Rightarrow> GstNalBs" where
  "vui_chroma_loc bs =
     (case gst_nal_bs_read bs 1 of
        (f, bs) \<Rightarrow> if f \<noteq> 0 then bs_skip_ue (bs_skip_ue bs) else bs)"

definition vui_timing_info :: "GstH264Sps \<Rightarrow> GstNalBs \<Rightarrow> GstH264Sps \<times> GstNalBs" where
  "vui_timing_info s bs =
     (case gst_nal_bs_read bs 1 of
        (f, bs) \<Rightarrow>
          if f \<noteq> 0 then
            (case gst_nal_bs_read bs 32 of (n, bs) \<Rightarrow>
             case gst_nal_bs_read bs 32 of (t, bs) \<Rightarrow>
               if t = 0 then (s\<lparr>timing_info_present_flag := f\<rparr>, bs)
               else if n = 0 then (s\<lparr>timing_info_present_flag := f\<rparr>, bs)
               else
                 (case gst_nal_bs_read bs 1 of
                    (r, bs) \<Rightarrow>
                      (s\<lparr>timing_info_present_flag := f, num_units_in_tick := n,
                         time_scale := t, fixed_frame_rate_flag := r\<rparr>, bs)))
          else (s\<lparr>timing_info_present_flag := f\<rparr>, bs))"

text \<open>
  The result of \<^verbatim>\<open>gst_vui_decode_hrd_parameters\<close> is not looked at by its caller; the
  reader stays where the call left it. \<open>vui_nal_hrd\<close> and \<open>vui_vcl_hrd\<close> are the two
  flag-and-block pairs, \<open>vui_low_delay\<close> the flag read when either is present.
\<close>

definition vui_nal_hrd :: "GstH264Sps \<Rightarrow> GstNalBs \<Rightarrow> GstH264Sps \<times> GstNalBs" where
  "vui_nal_hrd s bs =
     (case gst_nal_bs_read bs 1 of
        (f, bs) \<Rightarrow>
          if f \<noteq> 0
          then snd (gst_vui_decode_hrd_parameters (s\<lparr>nal_hrd_parameters_present_flag := f\<rparr>) bs)
          else (s\<lparr>nal_hrd_parameters_present_flag := f\<rparr>, bs))"

definition vui_vcl_hrd :: "GstH264Sps \<Rightarrow> GstNalBs \<Rightarrow> GstH264Sps \<times> GstNalBs" where
  "vui_vcl_hrd s bs =
     (case gst_nal_bs_read bs 1 of
        (f, bs) \<Rightarrow>
          if f \<noteq> 0
          then snd (gst_vui_decode_hrd_parameters (s\<lparr>vcl_hrd_parameters_present_flag := f\<rparr>) bs)
          else (s\<lparr>vcl_hrd_parameters_present_flag := f\<rparr>, bs))"

definition vui_low_delay :: "GstH264Sps \<Rightarrow> GstNalBs \<Rightarrow> GstNalBs" where
  "vui_low_delay s bs =
     (if nal_hrd_parameters_present_flag s \<noteq> 0 \<or> vcl_hrd_parameters_present_flag s \<noteq> 0
      then bs_skip bs 1 else bs)"

definition gst_sps_decode_vui ::
  "GstH264Sps \<Rightarrow> GstNalBs \<Rightarrow> bool \<times> GstH264Sps \<times> GstNalBs" where
  "gst_sps_decode_vui s bs =
     (case vui_timing_info s
             (vui_chroma_loc (vui_video_signal (vui_overscan (vui_aspect_ratio bs)))) of
        (s, bs) \<Rightarrow>
     case vui_nal_hrd s bs of (s, bs) \<Rightarrow>
     case vui_vcl_hrd s bs of (s, bs) \<Rightarrow>
     case gst_nal_bs_read (vui_low_delay s bs) 1 of
        (p, bs) \<Rightarrow> (True, s\<lparr>pic_struct_present_flag := p\<rparr>, bs))"

subsection \<open>Sequence parameter set\<close>

text \<open>
  The fields up to \<^verbatim>\<open>sps_id\<close>: profile, the four constraint flags, the reserved
  bits, level, id, each cut to its \<^verbatim>\<open>guint8\<close>.
\<close>

definition sps_read_ids :: "GstNalBs \<Rightarrow> (guint8 \<times> guint8 \<times> guint8) \<times> GstNalBs" where
  "sps_read_ids bs =
     (case gst_nal_bs_read bs 8 of (p, bs) \<Rightarrow>
      case gst_nal_bs_read (bs_skip (bs_skip (bs_skip (bs_skip (bs_skip bs 1) 1) 1) 1) 4) 8 of
        (l, bs) \<Rightarrow>
      case gst_nal_bs_read_ue bs of
        (i, bs) \<Rightarrow> ((ucast p, ucast l, ucast i), bs))"

text \<open>The chroma and bit-depth block of the high profiles.\<close>

definition sps_high_profile :: "guint8 \<Rightarrow> GstNalBs \<Rightarrow> GstNalBs" where
  "sps_high_profile p bs =
     (if p = 100 \<or> p = 110 \<or> p = 122 \<or> p = 244 \<or> p = 44 \<or> p = 83 \<or> p = 86 then
        (case gst_nal_bs_read_ue bs of
           (c, bs) \<Rightarrow>
             bs_skip (bs_skip (bs_skip_ue (bs_skip_ue (if c = 3 then bs_skip bs 1 else bs))) 1) 1)
      else bs)"

text \<open>
  From \<^verbatim>\<open>pic_order_cnt_type\<close> to the end of \<^verbatim>\<open>gst_nal_decode_sps\<close>, in four
  steps. The value of \<^verbatim>\<open>frame_cropping_flag\<close> is tested and not stored.
\<close>

definition sps_pic_order_cnt :: "GstH264Sps \<Rightarrow> GstNalBs \<Rightarrow> GstH264Sps \<times> GstNalBs" where
  "sps_pic_order_cnt s bs =
     (case gst_nal_bs_read_ue bs of
        (t, bs) \<Rightarrow>
          if (ucast t :: guint8) = 0 then
            (case gst_nal_bs_read_ue bs of
               (v, bs) \<Rightarrow>
                 (s\<lparr>pic_order_cnt_type := ucast t,
                    log2_max_pic_order_cnt_lsb_minus4 := ucast v\<rparr>, bs))
          else (s\<lparr>pic_order_cnt_type := ucast t\<rparr>, bs))"

definition sps_frame_mbs :: "GstH264Sps \<Rightarrow> GstNalBs \<Rightarrow> GstH264Sps \<times> GstNalBs" where
  "sps_frame_mbs s bs =
     (case gst_nal_bs_read (bs_skip_ue (bs_skip_ue (bs_skip (bs_skip_ue bs) 1))) 1 of
        (m, bs) \<Rightarrow>
          (s\<lparr>frame_mbs_only_flag := m\<rparr>, if m = 0 then bs_skip bs 1 else bs))"

definition sps_cropping :: "GstNalBs \<Rightarrow> GstNalBs" where
  "sps_cropping bs =
     (case gst_nal_bs_read (bs_skip bs 1) 1 of
        (c, bs) \<Rightarrow>
          if c \<noteq> 0 then bs_skip_ue (bs_skip_ue (bs_skip_ue (bs_skip_ue bs))) else bs)"

definition sps_vui :: "GstH264Sps \<Rightarrow> GstNalBs \<Rightarrow> GstH264Sps \<times> GstNalBs" where
  "sps_vui s bs =
     (case gst_nal_bs_read bs 1 of
        (v, bs) \<Rightarrow>
          if v \<noteq> 0 then snd (gst_sps_decode_vui (s\<lparr>vui_parameters_present_flag := v\<rparr>) bs)
          else (s\<lparr>vui_parameters_present_flag := v\<rparr>, bs))"

definition sps_after_frame_num :: "GstH264Sps \<Rightarrow> GstNalBs \<Rightarrow> GstH264Sps \<times> GstNalBs" where
  "sps_after_frame_num s bs =
     (case sps_pic_order_cnt s bs of (s, bs) \<Rightarrow>
      case sps_frame_mbs s bs of (s, bs) \<Rightarrow> sps_vui s (sps_cropping bs))"

definition gst_nal_decode_sps ::
  "GstH264Parse \<Rightarrow> GstNalBs \<Rightarrow> bool \<times> GstH264Parse \<times> GstNalBs" where
  "gst_nal_decode_sps h bs =
     (case sps_read_ids bs of
        ((p, l, i), bs) \<Rightarrow>
          (case gst_h264_parse_get_sps h i of
             (None, h) \<Rightarrow> (False, h, bs)
           | (Some s, h) \<Rightarrow>
               (case gst_nal_bs_read_ue (sps_high_profile p bs) of
                  (v, bs) \<Rightarrow>
                    if (ucast v :: guint8) > 12 then
                      (False,
                       store_sps h i (s\<lparr>profile_idc := p, level_idc := l,
                                        log2_max_frame_num_minus4 := ucast v\<rparr>), bs)
                    else
                      (case sps_after_frame_num
                              (s\<lparr>profile_idc := p, level_idc := l,
                                 log2_max_frame_num_minus4 := ucast v\<rparr>) bs of
                         (s, bs) \<Rightarrow> (True, store_sps h i s, bs)))))"

subsection \<open>Picture parameter set\<close>

definition gst_nal_decode_pps ::
  "GstH264Parse \<Rightarrow> GstNalBs \<Rightarrow> bool \<times> GstH264Parse \<times> GstNalBs" where
  "gst_nal_decode_pps h bs =
     (case gst_nal_bs_read_ue bs of
        (v, bs) \<Rightarrow>
          (case gst_h264_parse_get_pps h (ucast v) of
             (None, h) \<Rightarrow> (False, h, bs)
           | (Some p, h) \<Rightarrow>
               (case gst_nal_bs_read_ue bs of
                  (w, bs) \<Rightarrow> (True, store_pps h (ucast v) (p\<lparr>pps_sps_id := ucast w\<rparr>), bs))))"

subsection \<open>Supplemental enhancement information\<close>

text \<open>
  The two loops over \<^verbatim>\<open>sched_sel_idx\<close> of \<^verbatim>\<open>gst_sei_decode_buffering_period\<close>: the
  first read of a round is stored in \<^verbatim>\<open>h->initial_cpb_removal_delay[sched_sel_idx]\<close>, the
  second dropped. The C array has 32 entries and \<^verbatim>\<open>cpb_cnt_minus1\<close> can be up to 255; the
  model keeps a value written beyond index 31 at its index.
\<close>

primrec bp_delays ::
  "nat \<Rightarrow> nat \<Rightarrow> nat \<Rightarrow> (nat \<Rightarrow> gint) \<Rightarrow> GstNalBs \<Rightarrow> (nat \<Rightarrow> gint) \<times> GstNalBs" where
  "bp_delays 0 idx len d bs = (d, bs)"
| "bp_delays (Suc k) idx len d bs =
     (case gst_nal_bs_read bs len of
        (v, bs) \<Rightarrow> bp_delays k (idx + 1) len (d(idx := v)) (bs_skip bs len))"

definition bp_nal_delays ::
  "GstH264Sps \<Rightarrow> (nat \<Rightarrow> gint) \<Rightarrow> GstNalBs \<Rightarrow> (nat \<Rightarrow> gint) \<times> GstNalBs" where
  "bp_nal_delays s d bs =
     (if nal_hrd_parameters_present_flag s \<noteq> 0
      then bp_delays (unat (cpb_cnt_minus1 s) + 1) 0
             (unat (initial_cpb_removal_delay_length_minus1 s + 1)) d bs
      else (d, bs))"

definition bp_vcl_delays ::
  "GstH264Sps \<Rightarrow> (nat \<Rightarrow> gint) \<Rightarrow> GstNalBs \<Rightarrow> (nat \<Rightarrow> gint) \<times> GstNalBs" where
  "bp_vcl_delays s d bs =
     (if vcl_hrd_parameters_present_flag s \<noteq> 0
      then bp_delays (unat (cpb_cnt_minus1 s) + 1) 0
             (unat (initial_cpb_removal_delay_length_minus1 s + 1)) d bs
      else (d, bs))"

text \<open>The function ends with \<^verbatim>\<open>return 0;\<close>, which is \<^verbatim>\<open>FALSE\<close>.\<close>

definition gst_sei_decode_buffering_period ::
  "GstH264Parse \<Rightarrow> GstNalBs \<Rightarrow> bool \<times> GstH264Parse \<times> GstNalBs" where
  "gst_sei_decode_buffering_period h bs =
     (case gst_nal_bs_read_ue bs of
        (v, bs) \<Rightarrow>
          (case gst_h264_parse_get_sps h (ucast v) of
             (None, h) \<Rightarrow> (False, h, bs)
           | (Some s, h) \<Rightarrow>
               (case bp_nal_delays s (initial_cpb_removal_delay h) bs of (d, bs) \<Rightarrow>
                case bp_vcl_delays s d bs of
                  (d, bs) \<Rightarrow>
                    (False,
                     h\<lparr>initial_cpb_removal_delay := d,
                       ts_trn_nb :=
                         (if ts_trn_nb h = GST_CLOCK_TIME_NONE \<or> dts h = GST_CLOCK_TIME_NONE
                          then 0 else dts h)\<rparr>, bs))))"

definition sei_num_clock_ts_table :: "nat list" where
  "sei_num_clock_ts_table = [1, 1, 1, 2, 2, 3, 3, 2, 3]"

definition SEI_PIC_STRUCT_FRAME_TRIPLING :: guint32 where
  "SEI_PIC_STRUCT_FRAME_TRIPLING = 8"

text \<open>
  One round of the loop over the clock timestamps of a picture-timing message:
  \<open>pt_time_fields\<close> is the part that depends on \<^verbatim>\<open>full_timestamp_flag\<close>,
  \<open>pt_time_offset\<close> the read of \<^verbatim>\<open>time_offset\<close>.
\<close>

definition pt_time_fields :: "guint32 \<Rightarrow> GstNalBs \<Rightarrow> GstNalBs" where
  "pt_time_fields full bs =
     (if full \<noteq> 0 then bs_skip (bs_skip (bs_skip bs 6) 6) 5
      else
        (case gst_nal_bs_read bs 1 of
           (sf, bs) \<Rightarrow>
             if sf \<noteq> 0 then
               (case gst_nal_bs_read (bs_skip bs 6) 1 of
                  (mf, bs) \<Rightarrow>
                    if mf \<noteq> 0 then
                      (case gst_nal_bs_read (bs_skip bs 6) 1 of
                         (hf, bs) \<Rightarrow> if hf \<noteq> 0 then bs_skip bs 5 else bs)
                    else bs)
             else bs))"

definition pt_time_offset :: "GstH264Sps \<Rightarrow> GstNalBs \<Rightarrow> GstNalBs" where
  "pt_time_offset s bs =
     (if 0 \<le> sint (time_offset_length_minus1 s)
      then bs_skip bs (unat (time_offset_length_minus1 s + 1)) else bs)"

definition pt_clock_ts :: "GstH264Sps \<Rightarrow> guint32 \<Rightarrow> GstNalBs \<Rightarrow> guint32 \<times> GstNalBs" where
  "pt_clock_ts s ct bs =
     (case gst_nal_bs_read bs 1 of
        (f, bs) \<Rightarrow>
          if f \<noteq> 0 then
            (case gst_nal_bs_read bs 2 of (t, bs) \<Rightarrow>
             case gst_nal_bs_read (bs_skip (bs_skip bs 1) 5) 1 of
               (full, bs) \<Rightarrow>
                 (ct OR push_bit (unat t) 1,
                  pt_time_offset s
                    (pt_time_fields full (bs_skip (bs_skip (bs_skip bs 1) 1) 8))))
          else (ct, bs))"

primrec pt_clock_loop ::
  "nat \<Rightarrow> GstH264Sps \<Rightarrow> guint32 \<Rightarrow> GstNalBs \<Rightarrow> guint32 \<times> GstNalBs" where
  "pt_clock_loop 0 s ct bs = (ct, bs)"
| "pt_clock_loop (Suc k) s ct bs =
     (case pt_clock_ts s ct bs of (ct, bs) \<Rightarrow> pt_clock_loop k s ct bs)"

definition pt_delays :: "GstH264Sps \<Rightarrow> GstH264Parse \<Rightarrow> GstNalBs \<Rightarrow> GstH264Parse \<times> GstNalBs" where
  "pt_delays s h bs =
     (if nal_hrd_parameters_present_flag s \<noteq> 0 \<or> vcl_hrd_parameters_present_flag s \<noteq> 0 then
        (case gst_nal_bs_read bs (unat (cpb_removal_delay_length_minus1 s + 1)) of (a, bs) \<Rightarrow>
         case gst_nal_bs_read bs (unat (dpb_output_delay_length_minus1 s + 1)) of
           (b, bs) \<Rightarrow> (h\<lparr>sei_cpb_removal_delay := a, sei_dpb_output_delay := b\<rparr>, bs))
      else (h, bs))"

text \<open>
  \<^verbatim>\<open>gst_sei_decode_picture_timing\<close> works on the record \<^verbatim>\<open>h->sps\<close> points to and
  returns \<^verbatim>\<open>FALSE\<close> when the pointer is \<^verbatim>\<open>NULL\<close>. Its last statement is
  \<^verbatim>\<open>return 0;\<close> too.
\<close>

definition gst_sei_decode_picture_timing ::
  "GstH264Parse \<Rightarrow> GstNalBs \<Rightarrow> bool \<times> GstH264Parse \<times> GstNalBs" where
  "gst_sei_decode_picture_timing h bs =
     (case (case sps h of None \<Rightarrow> None | Some i \<Rightarrow> sps_buffers h i) of
        None \<Rightarrow> (False, h, bs)
      | Some s \<Rightarrow>
          (case pt_delays s h bs of
             (h, bs) \<Rightarrow>
               if pic_struct_present_flag s \<noteq> 0 then
                 (case gst_nal_bs_read bs 4 of
                    (ps, bs) \<Rightarrow>
                      if ps > SEI_PIC_STRUCT_FRAME_TRIPLING
                      then (False, h\<lparr>sei_pic_struct := ps, sei_ct_type := 0\<rparr>, bs)
                      else
                        (case pt_clock_loop (sei_num_clock_ts_table ! unat ps) s 0 bs of
                           (ct, bs) \<Rightarrow>
                             (False, h\<lparr>sei_pic_struct := ps, sei_ct_type := ct\<rparr>, bs)))
               else (False, h, bs)))"

text \<open>
  A refill hands out the bits it was asked for, or stops at the end of the range with
  fewer; it never adds to the number of bits left.
\<close>

lemma bs_fill_left:
  "bs_fill bs n = (bs1, n1) \<Longrightarrow>
     bs_head bs1 + 8 * length (bs_data bs1) \<le> bs_head bs + 8 * length (bs_data bs)
     \<and> (n1 = n \<and> n \<le> bs_head bs1 \<or> n1 = bs_head bs1 \<and> bs_head bs1 < n)"
proof (induction bs n arbitrary: bs1 n1 rule: bs_fill.induct)
  case (1 bs n)
  show ?case
  proof (cases "bs_head bs < n")
    case False
    with "1.prems" show ?thesis by (auto simp add: bs_fill.simps)
  next
    case True
    note lt = this
    show ?thesis
    proof (cases "bs_data bs")
      case Nil
      with lt "1.prems" show ?thesis by (auto simp add: bs_fill.simps)
    next
      case (Cons byte rest)
      note c1 = this
      show ?thesis
      proof (cases "byte = 0x03 \<and> bs_cache bs AND 0xffff = 0")
        case False
        with lt c1 "1.prems" "1.IH"(2)[OF lt c1 False, of bs1 n1] show ?thesis
          by (simp add: bs_fill.simps [of bs])
      next
        case True
        note ep = this
        show ?thesis
        proof (cases rest)
          case Nil
          with lt c1 ep "1.prems" show ?thesis by (auto simp add: bs_fill.simps [of bs])
        next
          case (Cons byte2 rest2)
          with lt c1 ep "1.prems" "1.IH"(1)[OF lt c1 ep Cons, of bs1 n1] show ?thesis
            by (simp add: bs_fill.simps [of bs])
        qed
      qed
    qed
  qed
qed

lemma read8_ff_consumes:
  assumes "gst_nal_bs_read bs 8 = (t, bs1)" and "(ucast t :: guint8) = 255"
  shows "bs_head bs1 + 8 * length (bs_data bs1) < bs_head bs + 8 * length (bs_data bs)"
proof -
  obtain b2 n1 where f: "bs_fill bs 8 = (b2, n1)" by (cases "bs_fill bs 8")
  from bs_fill_left [OF f] have
    le: "bs_head b2 + 8 * length (bs_data b2) \<le> bs_head bs + 8 * length (bs_data bs)"
    and alt: "n1 = 8 \<and> 8 \<le> bs_head b2 \<or> n1 = bs_head b2 \<and> bs_head b2 < 8" by auto
  from assms(1) f have
    bs1: "bs1 = b2\<lparr>bs_head := bs_head b2 - n1\<rparr>"
    and t: "t = bs_shifted b2 n1 AND (push_bit n1 1 - 1)"
    using alt by (auto simp add: gst_nal_bs_read_def bs_masked_def split: if_splits)
  from alt show ?thesis
  proof
    assume "n1 = 8 \<and> 8 \<le> bs_head b2"
    with le bs1 show ?thesis by auto
  next
    assume tr: "n1 = bs_head b2 \<and> bs_head b2 < 8"
    have m: "(push_bit n1 1 - 1 :: guint32) = mask n1"
      by (simp add: mask_eq_exp_minus_1 push_bit_eq_mult)
    from tr have "\<not> bit t 7" unfolding t m by (simp add: bit_simps)
    hence "\<not> bit (ucast t :: guint8) 7" by (simp add: bit_simps)
    with assms(2) have False by simp
    thus ?thesis ..
  qed
qed

text \<open>
  \<^verbatim>\<open>do { tmp = gst_nal_bs_read (bs, 8); payloadType += tmp; } while (tmp == 255);\<close>
  with \<^verbatim>\<open>tmp\<close> a \<^verbatim>\<open>guint8\<close>. The loop ends: a read of 255 takes eight bits from the
  range.
\<close>

function sei_ff_sum :: "GstNalBs \<Rightarrow> guint32 \<Rightarrow> guint32 \<times> GstNalBs" where
  "sei_ff_sum bs acc =
     (case gst_nal_bs_read bs 8 of
        (t, bs1) \<Rightarrow>
          if (ucast t :: guint8) = 255
          then sei_ff_sum bs1 (acc + ucast (ucast t :: guint8))
          else (acc + ucast (ucast t :: guint8), bs1))"
  by pat_completeness auto
termination
  by (relation "measure (\<lambda>(bs, acc). bs_head bs + 8 * length (bs_data bs))")
    (auto dest: read8_ff_consumes [OF sym])

declare sei_ff_sum.simps [simp del]

definition SEI_BUF_PERIOD :: guint32 where
  "SEI_BUF_PERIOD = 0"

definition SEI_PIC_TIMING :: guint32 where
  "SEI_PIC_TIMING = 1"

text \<open>
  \<^verbatim>\<open>gst_nal_decode_sei\<close>: \<^verbatim>\<open>payloadSize\<close> is summed in the same way and used for the
  log message only.
\<close>

definition gst_nal_decode_sei ::
  "GstH264Parse \<Rightarrow> GstNalBs \<Rightarrow> bool \<times> GstH264Parse \<times> GstNalBs" where
  "gst_nal_decode_sei h bs =
     (case sei_ff_sum bs 0 of (payloadType, bs) \<Rightarrow>
      case sei_ff_sum bs 0 of
        (payloadSize, bs) \<Rightarrow>
          if payloadType = SEI_BUF_PERIOD then
            (case gst_sei_decode_buffering_period h bs of
               (ok, h, bs) \<Rightarrow> if \<not> ok then (False, h, bs) else (True, h, bs))
          else if payloadType = SEI_PIC_TIMING then
            (case gst_sei_decode_picture_timing h bs of
               (ok, h, bs) \<Rightarrow> if \<not> ok then (False, h, bs) else (True, h, bs))
          else (True, h, bs))"

section \<open>The element's state\<close>

text \<open>
  The state \<^verbatim>\<open>gst_h264_parse_init\<close> leaves: the fields it does not assign are the zeros
  of the freshly allocated instance.
\<close>

definition gst_h264_parse_init :: GstH264Parse where
  "gst_h264_parse_init =
     \<lparr>split_packetized = False, packetized = False, nal_length_size = 0, discont = False,
      adapter = [], sps_buffers = (\<lambda>i. None), sps = None, pps_buffers = (\<lambda>i. None),
      pps = None, initial_cpb_removal_delay = (\<lambda>i. - 1), sei_cpb_removal_delay = 0,
      sei_dpb_output_delay = 0, sei_pic_struct = - 1, sei_ct_type = - 1,
      dts = GST_CLOCK_TIME_NONE, ts_trn_nb = GST_CLOCK_TIME_NONE, gather = [], decode = [],
      decode_len = 0, prev = None, have_i_frame = False, pushed = []\<rparr>"

text \<open>
  \<^verbatim>\<open>gst_h264_parse_clear_queues\<close>, run on \<^verbatim>\<open>GST_EVENT_FLUSH_STOP\<close> and on the change
  from paused to ready.
\<close>

definition gst_h264_parse_clear_queues :: "GstH264Parse \<Rightarrow> GstH264Parse" where
  "gst_h264_parse_clear_queues h =
     h\<lparr>gather := [], decode := [], decode_len := 0, prev := None, adapter := [],
       have_i_frame := False\<rparr>"

section \<open>Classifying a unit\<close>

definition NAL_SLICE :: gint where
  "NAL_SLICE = 1"

definition NAL_SLICE_IDR :: gint where
  "NAL_SLICE_IDR = 5"

definition NAL_SPS :: gint where
  "NAL_SPS = 7"

definition NAL_PPS :: gint where
  "NAL_PPS = 8"

text \<open>
  \<^verbatim>\<open>first_mb_in_slice\<close> and \<^verbatim>\<open>slice_type\<close>, read from the bytes after the NAL
  header byte with a fresh reader.
\<close>

definition slice_header_types :: "guint8 list \<Rightarrow> gint \<times> gint" where
  "slice_header_types payload =
     (case gst_nal_bs_read_ue (gst_nal_bs_init payload) of (mb, bs) \<Rightarrow>
      case gst_nal_bs_read_ue bs of (st, bs) \<Rightarrow> (mb, st))"

text \<open>
  The \<^verbatim>\<open>switch (slice_type)\<close> of \<^verbatim>\<open>gst_h264_parse_chain_forward\<close>: the value it
  leaves in \<^verbatim>\<open>delta_unit\<close>, which starts as \<^verbatim>\<open>TRUE\<close>.
\<close>

definition slice_type_delta :: "gint \<Rightarrow> bool" where
  "slice_type_delta st =
     (if st = 0 \<or> st = 5 \<or> st = 3 \<or> st = 8 then True
      else if st = 1 \<or> st = 6 then True
      else if st = 2 \<or> st = 7 \<or> st = 4 \<or> st = 9 then False
      else True)"

text \<open>
  The block "Figure out if this is a delta unit", on the bytes that follow the length
  prefix or sync code. The loop runs with at least one such byte, so the first case is
  not reached.
\<close>

definition forward_delta_unit :: "guint8 list \<Rightarrow> bool" where
  "forward_delta_unit data =
     (case data of
        [] \<Rightarrow> True
      | b # payload \<Rightarrow>
          if NAL_SLICE \<le> ucast (b AND 0x1f) \<and> (ucast (b AND 0x1f) :: gint) \<le> NAL_SLICE_IDR
          then slice_type_delta (snd (slice_header_types payload))
          else if NAL_SPS \<le> ucast (b AND 0x1f) \<and> (ucast (b AND 0x1f) :: gint) \<le> NAL_PPS
          then False
          else True)"

section \<open>The forward assembler\<close>

text \<open>
  What \<^verbatim>\<open>gst_pad_push\<close> returns is the business of the peer element; the functions
  below take the peer as a function from the pushed buffer to its answer.
\<close>

datatype GstFlowReturn = GST_FLOW_OK | GST_FLOW_ERROR

text \<open>
  \<^verbatim>\<open>for (i = 0; i < nal_length_size; i++) nalu_size = (nalu_size << 8) | data[i];\<close>
  on the first \<^verbatim>\<open>nal_length_size\<close> bytes.
\<close>

definition nalu_size_be :: "guint8 list \<Rightarrow> guint32" where
  "nalu_size_be bytes = foldl (\<lambda>acc b. push_bit 8 acc OR ucast b) 0 bytes"

text \<open>
  \<^verbatim>\<open>if (nalu_size <= 1 || nalu_size + h264parse->nal_length_size > avail)\<close>
  \<^verbatim>\<open>  nalu_size = avail - h264parse->nal_length_size;\<close>
  with \<^verbatim>\<open>nalu_size\<close> a \<^verbatim>\<open>guint32\<close>: the sum and the comparison are unsigned 32-bit.
\<close>

definition fix_nalu_size :: "nat \<Rightarrow> nat \<Rightarrow> guint32 \<Rightarrow> guint32" where
  "fix_nalu_size nls avail sz =
     (if sz \<le> 1 \<or> sz + of_nat nls > of_nat avail then of_nat avail - of_nat nls else sz)"

text \<open>
  \<^verbatim>\<open>for (i = 1; i < avail - 4; ++i)\<close> looking for 00 00 00 01 at \<^verbatim>\<open>data[i..i+3]\<close>: the
  list is the bytes from index \<open>i\<close> on, and \<open>i < avail - 4\<close> says that it has five bytes
  or more. The result is \<^verbatim>\<open>next_nalu_pos\<close>, -1 when the loop finds nothing.
\<close>

fun find_start_code :: "guint8 list \<Rightarrow> nat \<Rightarrow> int" where
  "find_start_code (a # b # c # d # e # rest) i =
     (if a = 0 \<and> b = 0 \<and> c = 0 \<and> d = 1 then int i
      else find_start_code (b # c # d # e # rest) (i + 1))"
| "find_start_code xs i = - 1"

text \<open>A byte list in which 00 00 00 01 occurs.\<close>

fun has_start_code :: "guint8 list \<Rightarrow> bool" where
  "has_start_code (a # b # c # d # rest) =
     ((a = 0 \<and> b = 0 \<and> c = 0 \<and> d = 1) \<or> has_start_code (b # c # d # rest))"
| "has_start_code xs = False"

definition packetized_nalu_size :: "GstH264Parse \<Rightarrow> guint32" where
  "packetized_nalu_size h =
     fix_nalu_size (nal_length_size h) (length (adapter h))
       (nalu_size_be (take (nal_length_size h) (adapter h)))"

definition next_nalu_pos :: "GstH264Parse \<Rightarrow> int" where
  "next_nalu_pos h =
     (if \<not> packetized h then find_start_code (drop 1 (adapter h)) 1
      else if split_packetized h then
        (if packetized_nalu_size h + of_nat (nal_length_size h) \<le> of_nat (length (adapter h))
         then sint (packetized_nalu_size h + of_nat (nal_length_size h))
         else - 1)
      else int (length (adapter h)))"

text \<open>
  The buffer taken from the adapter and pushed: the first \<^verbatim>\<open>next_nalu_pos\<close> bytes, the
  timestamp of the input buffer, \<^verbatim>\<open>DISCONT\<close> when \<^verbatim>\<open>h264parse->discont\<close> is set (a
  buffer fresh from the adapter has no flag), \<^verbatim>\<open>DELTA_UNIT\<close> as classified.
\<close>

definition forward_outbuf :: "GstH264Parse \<Rightarrow> GstClockTime \<Rightarrow> GstBuffer" where
  "forward_outbuf h ts =
     \<lparr>buf_data = take (nat (next_nalu_pos h)) (adapter h), buf_timestamp = ts,
      buf_discont = discont h,
      buf_delta_unit = forward_delta_unit (drop (nal_length_size h) (adapter h))\<rparr>"

definition forward_take :: "GstH264Parse \<Rightarrow> GstClockTime \<Rightarrow> GstH264Parse" where
  "forward_take h ts =
     h\<lparr>adapter := drop (nat (next_nalu_pos h)) (adapter h), discont := False,
       pushed := pushed h @ [forward_outbuf h ts]\<rparr>"

text \<open>The \<^verbatim>\<open>while (res == GST_FLOW_OK)\<close> loop of \<^verbatim>\<open>gst_h264_parse_chain_forward\<close>.\<close>

function forward_loop ::
  "(GstBuffer \<Rightarrow> GstFlowReturn) \<Rightarrow> GstClockTime \<Rightarrow> GstH264Parse \<Rightarrow> GstFlowReturn \<times> GstH264Parse"
  where
  "forward_loop peer ts h =
     (if length (adapter h) < nal_length_size h + 1 then (GST_FLOW_OK, h)
      else if next_nalu_pos h > 0 then
        (if peer (forward_outbuf h ts) = GST_FLOW_OK
         then forward_loop peer ts (forward_take h ts)
         else (peer (forward_outbuf h ts), forward_take h ts))
      else (GST_FLOW_OK, h))"
  by pat_completeness auto
termination
  by (relation "measure (\<lambda>(peer, ts, h). length (adapter h))")
    (auto simp add: forward_take_def)

declare forward_loop.simps [simp del]

definition gst_h264_parse_chain_forward ::
  "(GstBuffer \<Rightarrow> GstFlowReturn) \<Rightarrow> GstH264Parse \<Rightarrow> bool \<Rightarrow> GstBuffer
     \<Rightarrow> GstFlowReturn \<times> GstH264Parse" where
  "gst_h264_parse_chain_forward peer h dc b =
     (if dc
      then forward_loop peer (buf_timestamp b) (h\<lparr>adapter := buf_data b, discont := True\<rparr>)
      else forward_loop peer (buf_timestamp b) (h\<lparr>adapter := adapter h @ buf_data b\<rparr>))"

section \<open>The reverse assembler\<close>

subsection \<open>The decode queue\<close>

text \<open>
  The loop of \<^verbatim>\<open>gst_h264_parse_flush_decode\<close> over the queue, head first: the first
  buffer gets \<^verbatim>\<open>DISCONT\<close>, the others lose it, and \<^verbatim>\<open>DELTA_UNIT\<close> is unset exactly for
  an I frame. The result is the answer to the last push and the buffers pushed.
\<close>

definition flush_buffer :: "bool \<Rightarrow> GstNalList \<Rightarrow> GstBuffer" where
  "flush_buffer first link = (buffer link)\<lparr>buf_discont := first, buf_delta_unit := \<not> i_frame link\<rparr>"

fun flush_links ::
  "(GstBuffer \<Rightarrow> GstFlowReturn) \<Rightarrow> bool \<Rightarrow> GstFlowReturn \<Rightarrow> GstNalList list
     \<Rightarrow> GstFlowReturn \<times> GstBuffer list" where
  "flush_links peer first res [] = (res, [])"
| "flush_links peer first res (link # rest) =
     (case flush_links peer False (peer (flush_buffer first link)) rest of
        (r, outs) \<Rightarrow> (r, flush_buffer first link # outs))"

definition gst_h264_parse_flush_decode ::
  "(GstBuffer \<Rightarrow> GstFlowReturn) \<Rightarrow> GstH264Parse \<Rightarrow> GstFlowReturn \<times> GstH264Parse" where
  "gst_h264_parse_flush_decode peer h =
     (case flush_links peer True GST_FLOW_OK (decode h) of
        (r, outs) \<Rightarrow>
          (r, h\<lparr>pushed := pushed h @ outs, decode := [],
                decode_len := decode_len h - of_nat (length (decode h)),
                have_i_frame := False\<rparr>))"

subsection \<open>Queueing a buffer\<close>

definition nal_link_header :: "guint8 \<Rightarrow> GstNalList \<Rightarrow> GstNalList" where
  "nal_link_header b link =
     link\<lparr>nal_ref_idc := ucast (drop_bit 5 (b AND 0x60)), nal_type := ucast (b AND 0x1f)\<rparr>"

definition slice_type_is_i :: "gint \<Rightarrow> bool" where
  "slice_type_is_i st \<longleftrightarrow> st = 2 \<or> st = 7 \<or> st = 4 \<or> st = 9"

text \<open>
  For a NAL type from \<^verbatim>\<open>NAL_SLICE\<close> to \<^verbatim>\<open>NAL_SLICE_IDR\<close>: the slice header fields,
  \<^verbatim>\<open>slice = TRUE\<close>, and \<^verbatim>\<open>i_frame = TRUE\<close> for an I slice type; no branch of the switch
  clears \<^verbatim>\<open>i_frame\<close>.
\<close>

definition nal_link_slice :: "guint8 list \<Rightarrow> GstNalList \<Rightarrow> GstNalList" where
  "nal_link_slice payload link =
     (if NAL_SLICE \<le> nal_type link \<and> nal_type link \<le> NAL_SLICE_IDR then
        (case slice_header_types payload of
           (mb, st) \<Rightarrow>
             link\<lparr>first_mb_in_slice := mb, slice_type := st, slice := True,
                  i_frame := (i_frame link \<or> slice_type_is_i st)\<rparr>)
      else link)"

definition nal_link_unit :: "guint8 list \<Rightarrow> GstNalList \<Rightarrow> GstNalList" where
  "nal_link_unit data link =
     (case data of [] \<Rightarrow> link | b # payload \<Rightarrow> nal_link_slice payload (nal_link_header b link))"

text \<open>
  The loop \<^verbatim>\<open>while (size >= parse->nal_length_size + 1)\<close> of
  \<^verbatim>\<open>gst_h264_parse_queue_buffer\<close>, on the bytes from \<^verbatim>\<open>data\<close> on. A byte-stream buffer
  leaves after its first unit. In a packetized buffer the loop goes on behind the unit;
  the result is \<open>None\<close> when the C loop does not come back with a link: with a length
  prefix of no bytes it never advances, and with a declared length beyond the bytes left
  \<^verbatim>\<open>size -= nalu_size\<close> wraps around and the next round reads behind the buffer.
\<close>

function nal_scan :: "bool \<Rightarrow> nat \<Rightarrow> guint8 list \<Rightarrow> GstNalList \<Rightarrow> GstNalList option" where
  "nal_scan pk nls data link =
     (if length data \<ge> nls + 1 then
        (if \<not> pk then Some (nal_link_unit (drop nls data) link)
         else if nls = 0 then None
         else if unat (nalu_size_be (take nls data)) > length data - nls then None
         else nal_scan pk nls (drop (nls + unat (nalu_size_be (take nls data))) data)
                (nal_link_unit (drop nls data) link))
      else Some link)"
  by pat_completeness auto
termination
  by (relation "measure (\<lambda>(pk, nls, data, link). length data)") auto

declare nal_scan.simps [simp del]

definition queue_link :: "GstH264Parse \<Rightarrow> GstBuffer \<Rightarrow> GstNalList option" where
  "queue_link parse b =
     nal_scan (packetized parse) (nal_length_size parse) (buf_data b) (gst_nal_list_new b)"

definition queue_flush ::
  "(GstBuffer \<Rightarrow> GstFlowReturn) \<Rightarrow> GstH264Parse \<Rightarrow> GstNalList
     \<Rightarrow> GstFlowReturn \<times> GstH264Parse" where
  "queue_flush peer parse link =
     (if have_i_frame parse \<and> \<not> i_frame link \<and> slice link
      then gst_h264_parse_flush_decode peer parse
      else (GST_FLOW_OK, parse))"

definition queue_prepend :: "GstH264Parse \<Rightarrow> GstNalList \<Rightarrow> GstH264Parse" where
  "queue_prepend parse link =
     parse\<lparr>have_i_frame := (i_frame link \<or> have_i_frame parse),
           decode := link # decode parse, decode_len := decode_len parse + 1\<rparr>"

definition gst_h264_parse_queue_buffer ::
  "(GstBuffer \<Rightarrow> GstFlowReturn) \<Rightarrow> GstH264Parse \<Rightarrow> GstBuffer
     \<Rightarrow> (GstFlowReturn \<times> GstH264Parse) option" where
  "gst_h264_parse_queue_buffer peer parse b =
     (case queue_link parse b of
        None \<Rightarrow> None
      | Some link \<Rightarrow>
          (case queue_flush peer parse link of
             (res, parse1) \<Rightarrow> Some (res, queue_prepend parse1 link)))"

subsection \<open>Splitting the gathered buffers\<close>

text \<open>
  \<^verbatim>\<open>gst_h264_parse_find_start_reverse\<close>: the size at which the loop stops and the
  accumulator. The C function returns \<^verbatim>\<open>size - 1\<close> as a \<^verbatim>\<open>guint\<close>, which is -1 when
  the size is 0.
\<close>

function find_start_reverse :: "guint8 list \<Rightarrow> nat \<Rightarrow> guint32 \<Rightarrow> nat \<times> guint32" where
  "find_start_reverse data n search =
     (if n > 0 then
        (if push_bit 8 search OR ucast (data ! (n - 1)) = 0x01000000
         then (n, push_bit 8 search OR ucast (data ! (n - 1)))
         else find_start_reverse data (n - 1) (push_bit 8 search OR ucast (data ! (n - 1))))
      else (n, search))"
  by pat_completeness auto
termination
  by (relation "measure (\<lambda>(data, n, search). n)") auto

declare find_start_reverse.simps [simp del]

text \<open>
  \<^verbatim>\<open>gst_buffer_create_sub\<close> and \<^verbatim>\<open>gst_buffer_join\<close>, as far as the data and the
  timestamp go; the two flags of the result are set again before it is pushed.
\<close>

definition gst_buffer_create_sub :: "GstBuffer \<Rightarrow> nat \<Rightarrow> nat \<Rightarrow> GstBuffer" where
  "gst_buffer_create_sub b offset n = b\<lparr>buf_data := take n (drop offset (buf_data b))\<rparr>"

definition gst_buffer_join :: "GstBuffer \<Rightarrow> GstBuffer \<Rightarrow> GstBuffer" where
  "gst_buffer_join b1 b2 = b1\<lparr>buf_data := buf_data b1 @ buf_data b2\<rparr>"

text \<open>
  The loop \<^verbatim>\<open>while (last > 0)\<close> over one byte-stream buffer (\<open>lst\<close> is the C
  variable \<^verbatim>\<open>last\<close>): the answer to the last push, the leftover kept as \<^verbatim>\<open>prev\<close>,
  and the element.
\<close>

function reverse_split ::
  "(GstBuffer \<Rightarrow> GstFlowReturn) \<Rightarrow> GstBuffer \<Rightarrow> nat \<Rightarrow> guint32 \<Rightarrow> GstFlowReturn \<Rightarrow> GstH264Parse
     \<Rightarrow> (GstFlowReturn \<times> GstBuffer option \<times> GstH264Parse) option" where
  "reverse_split peer gbuf lst code res h =
     (if lst > 0 then
        (case find_start_reverse (buf_data gbuf) lst code of
           (n, code1) \<Rightarrow>
             if n > 0 then
               (case gst_h264_parse_queue_buffer peer h
                       (gst_buffer_create_sub gbuf (n - 1) (lst - (n - 1))) of
                  None \<Rightarrow> None
                | Some (r, h1) \<Rightarrow> reverse_split peer gbuf (n - 1) code1 r h1)
             else Some (res, Some (gst_buffer_create_sub gbuf 0 lst), h))
      else Some (res, None, h))"
  by pat_completeness auto

lemma find_start_reverse_le: "fst (find_start_reverse data n search) \<le> n"
proof (induction data n search rule: find_start_reverse.induct)
  case (1 data n search)
  then show ?case
    by (subst find_start_reverse.simps) (auto simp add: le_diff_conv)
qed

lemma find_start_reverse_less:
  assumes "(n, c) = find_start_reverse data lst code" and "0 < n"
  shows "n - Suc 0 < lst"
proof -
  from find_start_reverse_le [of data lst code] assms(1) [symmetric] have "n \<le> lst" by simp
  with assms(2) show ?thesis by simp
qed

termination reverse_split
  by (relation "measure (\<lambda>(peer, gbuf, lst, code, res, h). lst)")
    (auto dest: find_start_reverse_less)

declare reverse_split.simps [simp del]

text \<open>
  The loop \<^verbatim>\<open>while (h264parse->gather)\<close>: a packetized buffer is queued as it is, a
  byte-stream buffer is joined with the leftover and split at its start codes.
\<close>

fun reverse_gather ::
  "(GstBuffer \<Rightarrow> GstFlowReturn) \<Rightarrow> GstBuffer list \<Rightarrow> GstBuffer option \<Rightarrow> GstFlowReturn
     \<Rightarrow> GstH264Parse \<Rightarrow> (GstFlowReturn \<times> GstBuffer option \<times> GstH264Parse) option" where
  "reverse_gather peer [] pv res h = Some (res, pv, h)"
| "reverse_gather peer (g # gs) pv res h =
     (if packetized h then
        (case gst_h264_parse_queue_buffer peer h g of
           None \<Rightarrow> None
         | Some (r, h1) \<Rightarrow> reverse_gather peer gs pv r h1)
      else
        (case reverse_split peer (case pv of None \<Rightarrow> g | Some p \<Rightarrow> gst_buffer_join g p)
                (length (buf_data (case pv of None \<Rightarrow> g | Some p \<Rightarrow> gst_buffer_join g p)))
                0xffffffff res h of
           None \<Rightarrow> None
         | Some (r, pv1, h1) \<Rightarrow> reverse_gather peer gs pv1 r h1))"

definition reverse_discont ::
  "(GstBuffer \<Rightarrow> GstFlowReturn) \<Rightarrow> GstH264Parse \<Rightarrow> (GstFlowReturn \<times> GstH264Parse) option" where
  "reverse_discont peer h =
     (case reverse_gather peer (gather h) (prev h) GST_FLOW_OK (h\<lparr>prev := None, gather := []\<rparr>) of
        None \<Rightarrow> None
      | Some (r, pv, h1) \<Rightarrow> Some (r, h1\<lparr>prev := pv\<rparr>))"

definition reverse_add :: "GstH264Parse \<Rightarrow> GstBuffer option \<Rightarrow> GstH264Parse" where
  "reverse_add h b = (case b of None \<Rightarrow> h | Some b1 \<Rightarrow> h\<lparr>gather := b1 # gather h\<rparr>)"

definition gst_h264_parse_chain_reverse ::
  "(GstBuffer \<Rightarrow> GstFlowReturn) \<Rightarrow> GstH264Parse \<Rightarrow> bool \<Rightarrow> GstBuffer option
     \<Rightarrow> (GstFlowReturn \<times> GstH264Parse) option" where
  "gst_h264_parse_chain_reverse peer h dc b =
     (if dc then
        (case reverse_discont peer h of
           None \<Rightarrow> None
         | Some (r, h1) \<Rightarrow> Some (r, reverse_add h1 b))
      else Some (GST_FLOW_OK, reverse_add h b))"

text \<open>A run of calls of \<^verbatim>\<open>gst_h264_parse_chain_reverse\<close>, one per input buffer.\<close>

fun chain_reverse_all ::
  "(GstBuffer \<Rightarrow> GstFlowReturn) \<Rightarrow> GstH264Parse \<Rightarrow> (bool \<times> GstBuffer option) list
     \<Rightarrow> GstH264Parse option" where
  "chain_reverse_all peer h [] = Some h"
| "chain_reverse_all peer h ((dc, b) # calls) =
     (case gst_h264_parse_chain_reverse peer h dc b of
        None \<Rightarrow> None
      | Some (r, h1) \<Rightarrow> chain_reverse_all peer h1 calls)"

text \<open>
  \<^verbatim>\<open>GST_EVENT_EOS\<close> in reverse playback: the gathered buffers are moved to the decode
  queue and the queue is flushed.
\<close>

definition reverse_eos ::
  "(GstBuffer \<Rightarrow> GstFlowReturn) \<Rightarrow> GstH264Parse \<Rightarrow> GstH264Parse option" where
  "reverse_eos peer h =
     (case gst_h264_parse_chain_reverse peer h True None of
        None \<Rightarrow> None
      | Some (r, h1) \<Rightarrow> Some (snd (gst_h264_parse_flush_decode peer h1)))"

section \<open>Example inputs\<close>

text \<open>
  A state in which SPS 0 is known and announces NAL HRD parameters with one 8-bit
  \<^verbatim>\<open>initial_cpb_removal_delay\<close>.
\<close>

definition hrd_parse :: GstH264Parse where
  "hrd_parse = gst_h264_parse_init
     \<lparr>sps_buffers := [0 \<mapsto> new0_sps\<lparr>nal_hrd_parameters_present_flag := 1,
                                       initial_cpb_removal_delay_length_minus1 := 7\<rparr>],
      sps := Some 0\<rparr>"

text \<open>
  An SPS payload: profile 66, level 30, \<^verbatim>\<open>sps_id\<close> 0 and
  \<^verbatim>\<open>log2_max_frame_num_minus4\<close> 13 (the bits 1 and 0001110 of the last byte).
\<close>

definition sps13_bytes :: "guint8 list" where
  "sps13_bytes = [0x42, 0x00, 0x1E, 0x8E]"

text \<open>The 4-byte start code, and the element as \<^verbatim>\<open>gst_h264_parse_chain\<close> sets it up for
  a byte stream; the element for a packetized stream with 4-byte lengths, without and
  with \<^verbatim>\<open>split-packetized\<close>.\<close>

definition start_code :: "guint8 list" where
  "start_code = [0x00, 0x00, 0x00, 0x01]"

definition bytestream_parse :: GstH264Parse where
  "bytestream_parse = gst_h264_parse_init\<lparr>packetized := False, nal_length_size := 4\<rparr>"

definition packetized_parse :: GstH264Parse where
  "packetized_parse = gst_h264_parse_init\<lparr>packetized := True, nal_length_size := 4\<rparr>"

definition split_parse :: GstH264Parse where
  "split_parse = gst_h264_parse_init
     \<lparr>split_packetized := True, packetized := True, nal_length_size := 4\<rparr>"

text \<open>A peer that accepts every buffer, and an input buffer with a timestamp.\<close>

definition peer_ok :: "GstBuffer \<Rightarrow> GstFlowReturn" where
  "peer_ok b = GST_FLOW_OK"

definition ts_buffer :: "GstClockTime \<Rightarrow> guint8 list \<Rightarrow> GstBuffer" where
  "ts_buffer t d = \<lparr>buf_data = d, buf_timestamp = t, buf_discont = False, buf_delta_unit = False\<rparr>"

text \<open>
  Two length-prefixed units of two bytes: a slice (NAL type 1) with
  \<^verbatim>\<open>first_mb_in_slice\<close> 0 and \<^verbatim>\<open>slice_type\<close> 0 (P), and an IDR slice (NAL type 5) with
  \<^verbatim>\<open>slice_type\<close> 2 (I); and the links \<^verbatim>\<open>gst_h264_parse_queue_buffer\<close> makes of them.
\<close>

definition p_unit :: "guint8 list" where
  "p_unit = [0x00, 0x00, 0x00, 0x02, 0x41, 0xC0]"

definition i_unit :: "guint8 list" where
  "i_unit = [0x00, 0x00, 0x00, 0x02, 0x65, 0xB0]"

definition p_link :: "GstClockTime \<Rightarrow> GstNalList" where
  "p_link t = \<lparr>nal_type = 1, nal_ref_idc = 2, first_mb_in_slice = 0, slice_type = 0,
     slice = True, i_frame = False, buffer = ts_buffer t p_unit\<rparr>"

definition i_link :: "GstClockTime \<Rightarrow> GstNalList" where
  "i_link t = \<lparr>nal_type = 5, nal_ref_idc = 3, first_mb_in_slice = 0, slice_type = 2,
     slice = True, i_frame = True, buffer = ts_buffer t i_unit\<rparr>"

section \<open>Running the reader on a given range\<close>

text \<open>
  The defining equations, stated for a reader whose three fields are given, so that they
  rewrite a concrete call and leave the calls on a bound reader alone.
\<close>

lemma bs_fill_Nil:
  "bs_fill \<lparr>bs_data = [], bs_head = h, bs_cache = c\<rparr> n =
     (if h < n then (\<lparr>bs_data = [], bs_head = h, bs_cache = c\<rparr>, h)
      else (\<lparr>bs_data = [], bs_head = h, bs_cache = c\<rparr>, n))"
  by (simp add: bs_fill.simps)

lemma bs_fill_Cons:
  "bs_fill \<lparr>bs_data = b # rest, bs_head = h, bs_cache = c\<rparr> n =
     (if h < n then
        (if b = 0x03 \<and> c AND 0xffff = 0 then
           (case rest of
              [] \<Rightarrow> (\<lparr>bs_data = [], bs_head = h, bs_cache = c\<rparr>, h)
            | b2 # rest2 \<Rightarrow>
                bs_fill \<lparr>bs_data = rest2, bs_head = h + 8, bs_cache = push_bit 8 c OR ucast b2\<rparr> n)
         else bs_fill \<lparr>bs_data = rest, bs_head = h + 8, bs_cache = push_bit 8 c OR ucast b\<rparr> n)
      else (\<lparr>bs_data = b # rest, bs_head = h, bs_cache = c\<rparr>, n))"
  by (subst bs_fill.simps) (auto split: list.splits)

lemma bs_masked_rec:
  "bs_masked \<lparr>bs_data = d, bs_head = h, bs_cache = c\<rparr> n =
     (if n < 32 then (if h - n > 0 then ucast (drop_bit (h - n) c) else ucast c) AND (push_bit n 1 - 1)
      else (if h - n > 0 then ucast (drop_bit (h - n) c) else ucast c))"
  by (simp add: bs_masked_def bs_shifted_def)

lemma gst_nal_bs_read_rec:
  "gst_nal_bs_read \<lparr>bs_data = d, bs_head = h, bs_cache = c\<rparr> n =
     (if n = 0 then (0, \<lparr>bs_data = d, bs_head = h, bs_cache = c\<rparr>)
      else (case bs_fill \<lparr>bs_data = d, bs_head = h, bs_cache = c\<rparr> n of
              (bs1, n1) \<Rightarrow> (bs_masked bs1 n1, bs1\<lparr>bs_head := bs_head bs1 - n1\<rparr>)))"
  by (simp add: gst_nal_bs_read_def)

lemma bs_skip_rec:
  "bs_skip \<lparr>bs_data = d, bs_head = h, bs_cache = c\<rparr> n =
     snd (gst_nal_bs_read \<lparr>bs_data = d, bs_head = h, bs_cache = c\<rparr> n)"
  by (simp add: bs_skip_def)

lemma ue_count_zeros_rec:
  "ue_count_zeros \<lparr>bs_data = d, bs_head = h, bs_cache = c\<rparr> i =
     (case gst_nal_bs_read \<lparr>bs_data = d, bs_head = h, bs_cache = c\<rparr> 1 of
        (b, bs1) \<Rightarrow>
          if b = 0 \<and> \<not> gst_nal_bs_eos bs1 \<and> i < 32 then ue_count_zeros bs1 (i + 1)
          else (i, bs1))"
  by (subst ue_count_zeros.simps) simp

lemma gst_nal_bs_read_ue_rec:
  "gst_nal_bs_read_ue \<lparr>bs_data = d, bs_head = h, bs_cache = c\<rparr> =
     (case ue_count_zeros \<lparr>bs_data = d, bs_head = h, bs_cache = c\<rparr> 0 of
        (i, bs1) \<Rightarrow>
          (case gst_nal_bs_read bs1 i of
             (r, bs2) \<Rightarrow> (push_bit i 1 - 1 + r, bs2)))"
  by (simp add: gst_nal_bs_read_ue_def)

lemma bs_skip_ue_rec:
  "bs_skip_ue \<lparr>bs_data = d, bs_head = h, bs_cache = c\<rparr> =
     snd (gst_nal_bs_read_ue \<lparr>bs_data = d, bs_head = h, bs_cache = c\<rparr>)"
  by (simp add: bs_skip_ue_def)

lemma gst_nal_bs_eos_rec:
  "gst_nal_bs_eos \<lparr>bs_data = d, bs_head = h, bs_cache = c\<rparr> \<longleftrightarrow> d = [] \<and> h = 0"
  by (simp add: gst_nal_bs_eos_def)

lemmas bs_eval = gst_nal_bs_init_def bs_fill_Nil bs_fill_Cons bs_masked_rec gst_nal_bs_read_rec
  bs_skip_rec ue_count_zeros_rec gst_nal_bs_read_ue_rec bs_skip_ue_rec gst_nal_bs_eos_rec


lemma sei_ff_sum_rec:
  "sei_ff_sum \<lparr>bs_data = d, bs_head = h, bs_cache = c\<rparr> acc =
     (case gst_nal_bs_read \<lparr>bs_data = d, bs_head = h, bs_cache = c\<rparr> 8 of
        (t, bs1) \<Rightarrow>
          if (ucast t :: guint8) = 255
          then sei_ff_sum bs1 (acc + ucast (ucast t :: guint8))
          else (acc + ucast (ucast t :: guint8), bs1))"
  by (subst sei_ff_sum.simps) simp

lemma plain_fill_Nil:
  "plain_fill \<lparr>bs_data = [], bs_head = h, bs_cache = c\<rparr> n =
     (if h < n then (\<lparr>bs_data = [], bs_head = h, bs_cache = c\<rparr>, h)
      else (\<lparr>bs_data = [], bs_head = h, bs_cache = c\<rparr>, n))"
  by (simp add: plain_fill.simps)

lemma plain_fill_Cons:
  "plain_fill \<lparr>bs_data = b # rest, bs_head = h, bs_cache = c\<rparr> n =
     (if h < n
      then plain_fill \<lparr>bs_data = rest, bs_head = h + 8, bs_cache = push_bit 8 c OR ucast b\<rparr> n
      else (\<lparr>bs_data = b # rest, bs_head = h, bs_cache = c\<rparr>, n))"
  by (subst plain_fill.simps) simp

lemma plain_read_rec:
  "plain_read \<lparr>bs_data = d, bs_head = h, bs_cache = c\<rparr> n =
     (if n = 0 then (0, \<lparr>bs_data = d, bs_head = h, bs_cache = c\<rparr>)
      else (case plain_fill \<lparr>bs_data = d, bs_head = h, bs_cache = c\<rparr> n of
              (bs1, n1) \<Rightarrow> (bs_masked bs1 n1, bs1\<lparr>bs_head := bs_head bs1 - n1\<rparr>)))"
  by (simp add: plain_read_def)

section \<open>Running the assemblers on a given input\<close>

text \<open>The loops, one round at a time, each under the condition that selects it.\<close>

lemma forward_loop_short:
  "length (adapter h) < nal_length_size h + 1 \<Longrightarrow> forward_loop peer ts h = (GST_FLOW_OK, h)"
  by (simp add: forward_loop.simps)

lemma forward_loop_wait:
  "\<not> length (adapter h) < nal_length_size h + 1 \<Longrightarrow> \<not> next_nalu_pos h > 0
     \<Longrightarrow> forward_loop peer ts h = (GST_FLOW_OK, h)"
  by (simp add: forward_loop.simps)

lemma forward_loop_push:
  "\<not> length (adapter h) < nal_length_size h + 1 \<Longrightarrow> next_nalu_pos h > 0
     \<Longrightarrow> forward_loop peer ts h =
         (if peer (forward_outbuf h ts) = GST_FLOW_OK
          then forward_loop peer ts (forward_take h ts)
          else (peer (forward_outbuf h ts), forward_take h ts))"
  by (subst forward_loop.simps) simp

lemmas fwd_eval = gst_h264_parse_chain_forward_def forward_loop_short forward_loop_wait
  forward_loop_push next_nalu_pos_def forward_outbuf_def forward_take_def forward_delta_unit_def
  slice_header_types_def slice_type_delta_def NAL_SLICE_def NAL_SLICE_IDR_def NAL_SPS_def NAL_PPS_def
  packetized_nalu_size_def fix_nalu_size_def nalu_size_be_def

lemma nal_scan_end:
  "length data < nls + 1 \<Longrightarrow> nal_scan pk nls data link = Some link"
  by (simp add: nal_scan.simps)

lemma nal_scan_bytestream:
  "nls + 1 \<le> length data \<Longrightarrow> nal_scan False nls data link = Some (nal_link_unit (drop nls data) link)"
  by (simp add: nal_scan.simps)

lemma nal_scan_packet:
  "nls + 1 \<le> length data \<Longrightarrow> nls \<noteq> 0
     \<Longrightarrow> \<not> unat (nalu_size_be (take nls data)) > length data - nls
     \<Longrightarrow> nal_scan True nls data link =
           nal_scan True nls (drop (nls + unat (nalu_size_be (take nls data))) data)
             (nal_link_unit (drop nls data) link)"
  by (subst nal_scan.simps) simp

lemmas queue_eval = queue_link_def nal_scan_end nal_scan_bytestream nal_scan_packet
  nal_link_unit_def nal_link_slice_def nal_link_header_def slice_type_is_i_def slice_header_types_def
  gst_nal_list_new_def nalu_size_be_def NAL_SLICE_def NAL_SLICE_IDR_def

lemma scan_p_unit:
  "nal_scan True 4 (buf_data (ts_buffer t p_unit)) (gst_nal_list_new (ts_buffer t p_unit))
     = Some (p_link t)"
  by (simp add: queue_eval bs_eval ts_buffer_def p_unit_def p_link_def)

lemma scan_i_unit:
  "nal_scan True 4 (buf_data (ts_buffer t i_unit)) (gst_nal_list_new (ts_buffer t i_unit))
     = Some (i_link t)"
  by (simp add: queue_eval bs_eval ts_buffer_def i_unit_def i_link_def)

section \<open>Properties of the bit reader\<close>

text \<open>
  C1. The claim: the reader yields the bits of the range in which each 00 00 03 has been
  reduced to 00 00. On the range 00 00 03 00 03 AB the reduced range is 00 00 00 03 AB
  (the second 03 follows 03 00, not 00 00), and its fourth byte reads as 03. The reader
  tests the bytes of its cache, where the first 03 is already gone, finds 00 00 before the
  second 03 and skips it too: its fourth byte is AB.
\<close>

theorem bs_read_drops_payload_03:
  "bs_read_seq (gst_nal_bs_init [0x00, 0x00, 0x03, 0x00, 0x03, 0xAB]) [8, 8, 8, 8]
     = [0x00, 0x00, 0x00, 0xAB]
   \<and> reduce_00_00_03 [0x00, 0x00, 0x03, 0x00, 0x03, 0xAB] = [0x00, 0x00, 0x00, 0x03, 0xAB]
   \<and> plain_read_seq (gst_nal_bs_init (reduce_00_00_03 [0x00, 0x00, 0x03, 0x00, 0x03, 0xAB]))
       [8, 8, 8, 8] = [0x00, 0x00, 0x00, 0x03]"
  by (simp add: bs_eval plain_fill_Nil plain_fill_Cons plain_read_rec)

subsection \<open>The reader as a consumer of a bit list\<close>

lemma length_word_bits [simp]: "length (word_bits n w) = n"
  by (induction n) simp_all

lemma word_bits_cong:
  "(\<And>i. i < n \<Longrightarrow> bit w i = bit v i) \<Longrightarrow> word_bits n w = word_bits n v"
  by (induction n) simp_all

lemma word_bits_add:
  "word_bits (m + n) w = word_bits m (drop_bit n w) @ word_bits n w"
  by (induction m) (simp_all add: bit_drop_bit_eq add.commute)

lemma word_bits_push:
  fixes c :: guint64 and b :: guint8
  assumes "h + 8 \<le> 64"
  shows "word_bits (h + 8) (push_bit 8 c OR ucast b) = word_bits h c @ word_bits 8 b"
proof -
  have 1: "word_bits h (drop_bit 8 (push_bit 8 c OR ucast b)) = word_bits h c"
    using assms by (intro word_bits_cong) (auto simp add: bit_simps dest: bit_imp_le_length)
  have 2: "word_bits 8 (push_bit 8 c OR ucast b) = word_bits 8 b"
    by (intro word_bits_cong) (auto simp add: bit_simps dest: bit_imp_le_length)
  show ?thesis by (simp only: word_bits_add 1 2)
qed

lemma bs_fill_bits:
  assumes "bs_fill bs n = (bs1, n1)" and "n \<le> 56" and "bs_head bs < n + 8"
  shows "bs_bits bs1 = bs_bits bs \<and> bs_head bs1 < n + 8
    \<and> (n1 = n \<and> n \<le> bs_head bs1
        \<or> n1 = bs_head bs1 \<and> bs_head bs1 < n \<and> ep_bytes (bs_cache bs1) (bs_data bs1) = [])"
  using assms
proof (induction bs n arbitrary: bs1 n1 rule: bs_fill.induct)
  case (1 bs n)
  show ?case
  proof (cases "bs_head bs < n")
    case False
    with "1.prems" show ?thesis by (auto simp add: bs_fill.simps)
  next
    case True
    note lt = this
    show ?thesis
    proof (cases "bs_data bs")
      case Nil
      with lt "1.prems" show ?thesis by (auto simp add: bs_fill.simps bs_bits_def)
    next
      case (Cons byte rest)
      note c1 = this
      show ?thesis
      proof (cases "byte = 0x03 \<and> bs_cache bs AND 0xffff = 0")
        case False
        let ?b = "bs\<lparr>bs_data := rest, bs_cache := push_bit 8 (bs_cache bs) OR ucast byte,
                      bs_head := bs_head bs + 8\<rparr>"
        from lt c1 False "1.prems" have f: "bs_fill ?b n = (bs1, n1)"
          by (auto simp add: bs_fill.simps [of bs])
        from lt "1.prems" have h: "bs_head bs + 8 \<le> 64" by simp
        have eq: "bs_bits ?b = bs_bits bs"
          using False c1 by (auto simp add: bs_bits_def word_bits_push [OF h])
        from "1.IH"(2) [OF lt c1 False f] lt "1.prems" eq show ?thesis by simp
      next
        case True
        note ep = this
        show ?thesis
        proof (cases rest)
          case Nil
          with lt c1 ep "1.prems" show ?thesis
            by (auto simp add: bs_fill.simps [of bs] bs_bits_def)
        next
          case (Cons byte2 rest2)
          let ?b = "bs\<lparr>bs_data := rest2, bs_cache := push_bit 8 (bs_cache bs) OR ucast byte2,
                        bs_head := bs_head bs + 8\<rparr>"
          from lt c1 ep Cons "1.prems" have f: "bs_fill ?b n = (bs1, n1)"
            by (auto simp add: bs_fill.simps [of bs])
          from lt "1.prems" have h: "bs_head bs + 8 \<le> 64" by simp
          have eq: "bs_bits ?b = bs_bits bs"
            using ep c1 Cons by (auto simp add: bs_bits_def word_bits_push [OF h])
          from "1.IH"(1) [OF lt c1 ep Cons f] lt "1.prems" eq show ?thesis by simp
        qed
      qed
    qed
  qed
qed

lemma bl_val_word_bits: "bl_val (word_bits n w) = unat (take_bit n w)"
proof (induction n)
  case 0
  show ?case by simp
next
  case (Suc n)
  have "unat (take_bit (Suc n) w) = take_bit (Suc n) (unat w)"
    by (simp add: unsigned_take_bit_eq)
  also have "\<dots> = 2 ^ n * of_bool (bit (unat w) n) + take_bit n (unat w)"
    by (rule take_bit_Suc_from_most)
  also have "\<dots> = of_bool (bit w n) * 2 ^ n + unat (take_bit n w)"
    by (simp add: unsigned_take_bit_eq bit_unsigned_iff)
  finally show ?case using Suc by simp
qed

lemma bs_masked_take_bit:
  assumes "n \<le> 32"
  shows "bs_masked bs n = take_bit n (ucast (drop_bit (bs_head bs - n) (bs_cache bs)) :: guint32)"
proof -
  have s: "bs_shifted bs n = ucast (drop_bit (bs_head bs - n) (bs_cache bs))"
    by (simp add: bs_shifted_def)
  have m: "(push_bit n 1 - 1 :: guint32) = mask n"
    by (simp add: mask_eq_exp_minus_1 push_bit_eq_mult)
  show ?thesis
  proof (cases "n < 32")
    case True
    then have "bs_masked bs n = bs_shifted bs n AND mask n"
      by (simp only: bs_masked_def m if_True)
    then show ?thesis by (simp add: s take_bit_eq_mask)
  next
    case False
    with assms have n: "n = 32" by simp
    have "take_bit 32 x = x" for x :: guint32
      using take_bit_length_eq [of x] by simp
    with n show ?thesis by (simp add: bs_masked_def s [unfolded n])
  qed
qed

lemma bs_masked_bits:
  assumes "n \<le> 32" and "n \<le> bs_head bs"
  shows "unat (bs_masked bs n) = bl_val (take n (word_bits (bs_head bs) (bs_cache bs)))"
    and "word_bits (bs_head bs - n) (bs_cache bs) = drop n (word_bits (bs_head bs) (bs_cache bs))"
proof -
  let ?s = "bs_head bs - n"
  let ?x = "ucast (drop_bit ?s (bs_cache bs)) :: guint32"
  have split: "word_bits (bs_head bs) (bs_cache bs)
                 = word_bits n (drop_bit ?s (bs_cache bs)) @ word_bits ?s (bs_cache bs)"
    using word_bits_add [of n ?s "bs_cache bs"] assms(2) by simp
  have x: "word_bits n ?x = word_bits n (drop_bit ?s (bs_cache bs))"
    using assms(1) by (intro word_bits_cong) (simp add: bit_simps)
  have "unat (bs_masked bs n) = unat (take_bit n ?x)"
    by (simp add: bs_masked_take_bit [OF assms(1)])
  also have "\<dots> = bl_val (word_bits n ?x)"
    by (simp add: bl_val_word_bits)
  finally show "unat (bs_masked bs n) = bl_val (take n (word_bits (bs_head bs) (bs_cache bs)))"
    by (simp add: x split)
  show "word_bits (bs_head bs - n) (bs_cache bs) = drop n (word_bits (bs_head bs) (bs_cache bs))"
    by (simp add: split)
qed

lemma read_bits:
  assumes "gst_nal_bs_read bs n = (r, bs1)" and "n \<le> 32" and "bs_head bs < 8"
  shows "unat r = bl_val (take n (bs_bits bs))
    \<and> bs_bits bs1 = drop n (bs_bits bs) \<and> bs_head bs1 < 8"
proof (cases "n = 0")
  case True
  with assms show ?thesis by (simp add: gst_nal_bs_read_def)
next
  case False
  obtain b2 n1 where f: "bs_fill bs n = (b2, n1)" by (cases "bs_fill bs n")
  from assms(1) False f have r: "r = bs_masked b2 n1"
    and b1: "bs1 = b2\<lparr>bs_head := bs_head b2 - n1\<rparr>"
    by (simp_all add: gst_nal_bs_read_def)
  from bs_fill_bits [OF f] assms(2,3) have
    eq: "bs_bits b2 = bs_bits bs" and hd: "bs_head b2 < n + 8"
    and alt: "n1 = n \<and> n \<le> bs_head b2
       \<or> n1 = bs_head b2 \<and> bs_head b2 < n \<and> ep_bytes (bs_cache b2) (bs_data b2) = []"
    by auto
  from alt assms(2) have n1: "n1 \<le> 32" "n1 \<le> bs_head b2" by auto
  note m = bs_masked_bits [OF n1]
  from alt show ?thesis
  proof
    assume a: "n1 = n \<and> n \<le> bs_head b2"
    then have "take n (bs_bits b2) = take n (word_bits (bs_head b2) (bs_cache b2))"
      by (simp add: bs_bits_def)
    moreover from a have "drop n (bs_bits b2) = drop n (word_bits (bs_head b2) (bs_cache b2))
        @ concat (map (word_bits 8) (ep_bytes (bs_cache b2) (bs_data b2)))"
      by (simp add: bs_bits_def)
    ultimately show ?thesis using a m r b1 hd eq [symmetric] by (simp add: bs_bits_def)
  next
    assume a: "n1 = bs_head b2 \<and> bs_head b2 < n \<and> ep_bytes (bs_cache b2) (bs_data b2) = []"
    then have "bs_bits b2 = word_bits (bs_head b2) (bs_cache b2)"
      by (simp add: bs_bits_def)
    then show ?thesis using a m r b1 eq [symmetric] by (simp add: bs_bits_def)
  qed
qed

lemma eos_bits: "gst_nal_bs_eos bs \<Longrightarrow> bs_bits bs = []"
  by (simp add: gst_nal_bs_eos_def bs_bits_def)

lemma read_one_bit:
  assumes "bs_bits bs = b # rest" and "bs_head bs < 8"
  shows "\<exists>r bs1. gst_nal_bs_read bs 1 = (r, bs1) \<and> (r = 0 \<longleftrightarrow> \<not> b)
    \<and> bs_bits bs1 = rest \<and> bs_head bs1 < 8"
proof -
  obtain r bs1 where rd: "gst_nal_bs_read bs 1 = (r, bs1)" by (cases "gst_nal_bs_read bs 1")
  from read_bits [OF rd _ assms(2)] assms(1)
  have u: "unat r = of_bool b" and b: "bs_bits bs1 = rest" and h: "bs_head bs1 < 8" by simp_all
  from u have "r = 0 \<longleftrightarrow> \<not> b" by (cases b) (auto simp add: unat_eq_0)
  with rd b h show ?thesis by simp
qed

lemma count_zeros_bits:
  assumes "bs_bits bs = replicate k False @ True # rest" and "bs_head bs < 8" and "i + k \<le> 32"
  shows "\<exists>bs1. ue_count_zeros bs i = (i + k, bs1) \<and> bs_bits bs1 = rest \<and> bs_head bs1 < 8"
  using assms
proof (induction k arbitrary: bs i)
  case 0
  then have b: "bs_bits bs = True # rest" by simp
  from read_one_bit [OF b "0.prems"(2)] obtain r bs1 where
    "gst_nal_bs_read bs 1 = (r, bs1)" "r \<noteq> 0" "bs_bits bs1 = rest" "bs_head bs1 < 8"
    by auto
  then show ?case by (subst ue_count_zeros.simps) simp
next
  case (Suc k)
  then have b: "bs_bits bs = False # (replicate k False @ True # rest)" by simp
  from read_one_bit [OF b Suc.prems(2)] obtain r bs1 where
    rd: "gst_nal_bs_read bs 1 = (r, bs1)" "r = 0"
    and b1: "bs_bits bs1 = replicate k False @ True # rest" and h1: "bs_head bs1 < 8"
    by auto
  from b1 have ne: "\<not> gst_nal_bs_eos bs1" using eos_bits [of bs1] by auto
  from Suc.prems(3) have i: "i < 32" "(i + 1) + k \<le> 32" by simp_all
  from Suc.IH [OF b1 h1 i(2)] obtain bs2 where
    "ue_count_zeros bs1 (i + 1) = (i + 1 + k, bs2)" "bs_bits bs2 = rest" "bs_head bs2 < 8"
    by auto
  with rd ne i(1) show ?case by (subst ue_count_zeros.simps) simp
qed

lemma read_ue_bits:
  assumes "bs_bits bs = replicate k False @ True # rb @ rest" and "length rb = k"
    and "k \<le> 32" and "bs_head bs < 8"
  shows "fst (gst_nal_bs_read_ue bs) = push_bit k 1 - 1 + of_nat (bl_val rb)"
proof -
  from count_zeros_bits [OF assms(1) assms(4), of 0] assms(3) obtain bs1 where
    c: "ue_count_zeros bs 0 = (k, bs1)" and b1: "bs_bits bs1 = rb @ rest" and h1: "bs_head bs1 < 8"
    by auto
  obtain r bs2 where rd: "gst_nal_bs_read bs1 k = (r, bs2)" by (cases "gst_nal_bs_read bs1 k")
  from read_bits [OF rd assms(3) h1] b1 assms(2) have "unat r = bl_val rb" by simp
  then have "(of_nat (unat r) :: guint32) = of_nat (bl_val rb)" by simp
  then have "r = of_nat (bl_val rb)" by simp
  with c rd show ?thesis by (simp add: gst_nal_bs_read_ue_def)
qed

subsection \<open>The encoder\<close>

lemma bit_length_bounds: "0 < n \<Longrightarrow> 2 ^ (bit_length n - 1) \<le> n \<and> n < 2 ^ bit_length n"
proof (induction n rule: bit_length.induct)
  case (1 n)
  show ?case
  proof (cases "n div 2 = 0")
    case True
    with "1.prems" have "n = 1" by (auto simp add: div_eq_0_iff)
    then show ?thesis by (simp add: bit_length.simps [of "Suc 0"] bit_length.simps [of 0])
  next
    case False
    with "1.IH" "1.prems" have ih: "2 ^ (bit_length (n div 2) - 1) \<le> n div 2"
      "n div 2 < 2 ^ bit_length (n div 2)" by simp_all
    from False have pos: "0 < bit_length (n div 2)" by (simp add: bit_length.simps [of "n div 2"])
    have bl: "bit_length n = Suc (bit_length (n div 2))"
      using "1.prems" by (simp add: bit_length.simps [of n])
    from pos obtain m where m: "bit_length (n div 2) = Suc m" by (cases "bit_length (n div 2)") auto
    from ih m have "2 * 2 ^ m \<le> n" "n < 2 * 2 ^ Suc m" by auto
    then show ?thesis by (simp add: bl m)
  qed
qed

lemma bit_length_le: "n < 2 ^ k \<Longrightarrow> bit_length n \<le> k"
proof (induction k arbitrary: n)
  case 0
  then show ?case by (simp add: bit_length.simps [of 0])
next
  case (Suc k)
  show ?case
  proof (cases "n = 0")
    case True
    then show ?thesis by (simp add: bit_length.simps [of 0])
  next
    case False
    from Suc.prems have "n div 2 < 2 ^ k" by auto
    from Suc.IH [OF this] False show ?thesis by (simp add: bit_length.simps [of n])
  qed
qed

lemma ue_zeros_bounds: "2 ^ ue_zeros v \<le> v + 1 \<and> v + 1 < 2 * 2 ^ ue_zeros v"
proof -
  have p: "0 < v + 1" by simp
  from bit_length_bounds [OF p] have a: "2 ^ (bit_length (v + 1) - 1) \<le> v + 1"
    and b: "v + 1 < 2 ^ bit_length (v + 1)" by simp_all
  from b have "0 < bit_length (v + 1)" by (cases "bit_length (v + 1)") auto
  then have "bit_length (v + 1) = Suc (bit_length (v + 1) - 1)" by simp
  with b have "v + 1 < 2 * 2 ^ (bit_length (v + 1) - 1)" by (metis power_Suc)
  with a show ?thesis by (simp add: ue_zeros_def)
qed

lemma ue_zeros_le: "v < 2 ^ 16 \<Longrightarrow> ue_zeros v \<le> 16"
proof -
  assume "v < 2 ^ 16"
  then have "v + 1 < 2 ^ 17" by simp
  from bit_length_le [OF this] show ?thesis by (simp add: ue_zeros_def)
qed

lemma length_nat_bits [simp]: "length (nat_bits k x) = k"
  by (induction k) simp_all

lemma bl_val_less: "bl_val bs < 2 ^ length bs"
proof (induction bs)
  case Nil
  show ?case by simp
next
  case (Cons b bs)
  then show ?case by (cases b) simp_all
qed

lemma bl_val_nat_bits: "bl_val (nat_bits k x) = x mod 2 ^ k"
proof (induction k)
  case 0
  show ?case by simp
next
  case (Suc k)
  have "x mod (2 ^ k * 2) = 2 ^ k * (x div 2 ^ k mod 2) + x mod 2 ^ k"
    by (rule mod_mult2_eq)
  moreover have "x div 2 ^ k mod 2 = 0 \<or> x div 2 ^ k mod 2 = 1" by auto
  ultimately show ?case using Suc by (auto simp add: mult.commute)
qed

lemma bl_val_inj:
  "length xs = length ys \<Longrightarrow> bl_val xs = bl_val ys \<Longrightarrow> xs = ys"
proof (induction xs ys rule: list_induct2)
  case Nil
  show ?case by simp
next
  case (Cons x xs y ys)
  from bl_val_less [of xs] bl_val_less [of ys] Cons.hyps Cons.prems
  have "x = y \<and> bl_val xs = bl_val ys" by (cases x; cases y) auto
  with Cons.IH show ?case by simp
qed

lemma word_bits_byte_of_bits:
  assumes "length l = 8"
  shows "word_bits 8 (byte_of_bits l) = l"
proof (rule bl_val_inj)
  show "length (word_bits 8 (byte_of_bits l)) = length l" using assms by simp
  from bl_val_less [of l] assms have lt: "bl_val l < 256" by simp
  have "bl_val (word_bits 8 (byte_of_bits l)) = unat (take_bit 8 (byte_of_bits l))"
    by (rule bl_val_word_bits)
  also have "\<dots> = unat (byte_of_bits l)"
    using take_bit_length_eq [of "byte_of_bits l"] by simp
  also have "\<dots> = bl_val l"
    using lt by (simp add: byte_of_bits_def unat_of_nat)
  finally show "bl_val (word_bits 8 (byte_of_bits l)) = bl_val l" .
qed

lemma pack_bits_unpack:
  "\<exists>pad. concat (map (word_bits 8) (pack_bits bs)) = bs @ replicate pad False"
proof (induction bs rule: pack_bits.induct)
  case (1 bs)
  show ?case
  proof (cases "bs = []")
    case True
    then show ?thesis by (simp add: pack_bits.simps [of "[]"])
  next
    case False
    from "1.IH" [OF False] obtain pad where
      ih: "concat (map (word_bits 8) (pack_bits (drop 8 bs))) = drop 8 bs @ replicate pad False"
      by auto
    from False have len: "length (take 8 (bs @ replicate 7 False)) = 8"
      by (cases bs) simp_all
    have p: "pack_bits bs = byte_of_bits (take 8 (bs @ replicate 7 False)) # pack_bits (drop 8 bs)"
      using False by (simp add: pack_bits.simps [of bs])
    show ?thesis
    proof (cases "8 \<le> length bs")
      case True
      then have t: "take 8 (bs @ replicate 7 False) = take 8 bs" by simp
      have "concat (map (word_bits 8) (pack_bits bs))
              = take 8 bs @ drop 8 bs @ replicate pad False"
        using ih True by (simp add: p word_bits_byte_of_bits t)
      also have "\<dots> = bs @ replicate pad False"
        by (metis append_assoc append_take_drop_id)
      finally show ?thesis by blast
    next
      case short: False
      then have d: "drop 8 bs = []" by simp
      from short False have t: "take 8 (bs @ replicate 7 False) = bs @ replicate (8 - length bs) False"
        by (cases bs) (auto simp add: min_def)
      from d have "pack_bits (drop 8 bs) = []" by (simp add: pack_bits.simps [of "[]"])
      with len t show ?thesis
        by (simp add: p word_bits_byte_of_bits)
    qed
  qed
qed

subsection \<open>No emulation-prevention byte in a short code\<close>

lemma low16_zero_iff:
  fixes c :: guint64
  shows "c AND 0xffff = 0 \<longleftrightarrow> (ucast (drop_bit 8 c) :: guint8) = 0 \<and> (ucast c :: guint8) = 0"
proof
  have m: "(0xffff :: guint64) = mask 16" by (simp add: mask_eq_exp_minus_1)
  {
    assume z: "c AND 0xffff = 0"
    have b: "\<not> bit c i" if "i < 16" for i
    proof -
      from z have "\<not> bit (c AND mask 16) i" by (simp add: m)
      with that show ?thesis by (simp add: bit_simps)
    qed
    show "(ucast (drop_bit 8 c) :: guint8) = 0 \<and> (ucast c :: guint8) = 0"
      by (intro conjI bit_eqI) (auto simp add: bit_simps b)
  }
  {
    assume a: "(ucast (drop_bit 8 c) :: guint8) = 0 \<and> (ucast c :: guint8) = 0"
    have lo: "\<not> bit c i" if "i < 8" for i
    proof -
      from a have "\<not> bit (ucast c :: guint8) i" by simp
      with that show ?thesis by (simp add: bit_simps)
    qed
    have hi: "\<not> bit c (8 + i)" if "i < 8" for i
    proof -
      from a have "\<not> bit (ucast (drop_bit 8 c) :: guint8) i" by simp
      with that show ?thesis by (simp add: bit_simps)
    qed
    have b: "\<not> bit c i" if "i < 16" for i
    proof (cases "i < 8")
      case True
      then show ?thesis by (rule lo)
    next
      case False
      with that have "i - 8 < 8" by simp
      from hi [OF this] False show ?thesis by simp
    qed
    show "c AND 0xffff = 0"
      unfolding m by (rule bit_eqI) (auto simp add: bit_simps b)
  }
qed

lemma cache_prev_byte:
  fixes c :: guint64 and b :: guint8
  shows "(ucast (drop_bit 8 (push_bit 8 c OR ucast b)) :: guint8) = ucast c"
  by (rule bit_eqI) (auto simp add: bit_simps dest: bit_imp_le_length)

lemma cache_last_byte:
  fixes c :: guint64 and b :: guint8
  shows "(ucast (push_bit 8 c OR ucast b) :: guint8) = b"
  by (rule bit_eqI) (auto simp add: bit_simps dest: bit_imp_le_length)

lemma ep_bytes_id:
  "\<not> has_ep (ucast (drop_bit 8 c) # ucast c # data) \<Longrightarrow> ep_bytes c data = data"
proof (induction data arbitrary: c)
  case Nil
  show ?case by simp
next
  case (Cons b rest)
  from Cons.prems have no: "\<not> (b = 0x03 \<and> c AND 0xffff = 0)"
    and tl: "\<not> has_ep (ucast c # b # rest)"
    by (auto simp add: low16_zero_iff)
  have "\<not> has_ep (ucast (drop_bit 8 (push_bit 8 c OR ucast b))
                  # ucast (push_bit 8 c OR ucast b) # rest)"
    unfolding cache_prev_byte cache_last_byte by (rule tl)
  from Cons.IH [OF this] no show ?case by auto
qed

lemma word_bits_8_zero: "word_bits 8 (0 :: guint8) = replicate 8 False"
  by (simp add: eval_nat_numeral)

lemma word_bits_8_three: "word_bits 8 (3 :: guint8) = replicate 6 False @ [True, True]"
  by (simp add: eval_nat_numeral bit_simps)

lemma word_bits_8_ff: "word_bits 8 (0xff :: guint8) = replicate 8 True"
  by (simp add: eval_nat_numeral bit_simps)

lemma replicate_16:
  "replicate 8 True @ replicate 8 True @ xs = replicate 16 True @ xs"
  by (simp add: eval_nat_numeral)

lemma has_ep_bits:
  "has_ep bytes \<Longrightarrow>
     \<exists>pre post. concat (map (word_bits 8) bytes) = pre @ replicate 22 False @ True # True # post"
proof (induction bytes rule: has_ep.induct)
  case (1 a b c rest)
  show ?case
  proof (cases "a = 0 \<and> b = 0 \<and> c = 0x03")
    case True
    have "replicate 8 False @ replicate 8 False @ (replicate 6 False @ [True, True]) @ xs
            = [] @ replicate 22 False @ True # True # xs" for xs :: "bool list"
      by (simp add: eval_nat_numeral)
    with True show ?thesis
      by (simp only: list.map concat.simps word_bits_8_zero word_bits_8_three) blast
  next
    case False
    with "1.prems" have "has_ep (b # c # rest)" by simp
    from "1.IH" [OF this] obtain pre post where
      "concat (map (word_bits 8) (b # c # rest)) = pre @ replicate 22 False @ True # True # post"
      by auto
    then have "concat (map (word_bits 8) (a # b # c # rest))
                 = (word_bits 8 a @ pre) @ replicate 22 False @ True # True # post"
      by simp
    then show ?thesis by blast
  qed
qed simp_all

lemma ue_bits_no_ep_pattern:
  assumes eq: "replicate 16 True @ replicate k False @ True # rb @ replicate pad False
                 = pre @ replicate 22 False @ True # True # post"
    and len: "length rb = k" and k: "k \<le> 16"
  shows False
proof -
  let ?L = "replicate 16 True @ replicate k False @ True # rb @ replicate pad False"
  let ?p = "length pre"
  have r0: "?L ! ?p = False"
    unfolding eq by (simp add: nth_append)
  have r23: "?L ! (?p + 23) = True"
    unfolding eq by (simp add: nth_append nth_Cons')
  have rk: "?p \<le> i \<Longrightarrow> i < ?p + 22 \<Longrightarrow> ?L ! i = False" for i
    unfolding eq by (simp add: nth_append)
  have ll: "?p + 23 < length ?L"
    unfolding eq by simp
  have l1: "i < 16 \<Longrightarrow> ?L ! i = True" for i
    by (simp add: nth_append)
  have l2: "?L ! (16 + k) = True"
    by (simp add: nth_append)
  have l3: "16 + 2 * k < i \<Longrightarrow> i < length ?L \<Longrightarrow> ?L ! i = False" for i
    using len by (auto simp add: nth_append nth_Cons')
  from r0 l1 [of ?p] have p16: "16 \<le> ?p" by (cases "?p < 16") auto
  from rk [of "16 + k"] l2 have "\<not> (?p \<le> 16 + k \<and> 16 + k < ?p + 22)" by auto
  with p16 k have "16 + k < ?p" by simp
  with k have "16 + 2 * k < ?p + 23" by simp
  from l3 [OF this ll] r23 show False by simp
qed

text \<open>
  C2. For every \<open>v\<close> below \<open>2 ^ 16\<close>, the unsigned Exp-Golomb code of \<open>v\<close> (zero bits, a
  one bit, the remainder bits), laid out as a byte range, is decoded by
  \<^verbatim>\<open>gst_nal_bs_read_ue\<close> on a fresh reader to \<open>v\<close>.
\<close>

theorem read_ue_round_trip:
  assumes "v < 2 ^ 16"
  shows "fst (gst_nal_bs_read_ue (gst_nal_bs_init (pack_bits (ue_bits v)))) = of_nat v"
proof -
  let ?k = "ue_zeros v"
  let ?rb = "nat_bits ?k (v + 1 - 2 ^ ?k)"
  let ?bytes = "pack_bits (ue_bits v)"
  from ue_zeros_le [OF assms] have k: "?k \<le> 16" .
  from ue_zeros_bounds [of v] have lo: "2 ^ ?k \<le> v + 1" and hi: "v + 1 < 2 * 2 ^ ?k" by simp_all
  from pack_bits_unpack [of "ue_bits v"] obtain pad where
    unpack: "concat (map (word_bits 8) ?bytes) = ue_bits v @ replicate pad False" by auto
  have no_ep: "\<not> has_ep (0xff # 0xff # ?bytes)"
  proof
    assume "has_ep (0xff # 0xff # ?bytes)"
    from has_ep_bits [OF this] obtain pre post where
      "concat (map (word_bits 8) (0xff # 0xff # ?bytes))
         = pre @ replicate 22 False @ True # True # post" by auto
    then have "replicate 16 True @ replicate ?k False @ True # ?rb @ replicate pad False
                 = pre @ replicate 22 False @ True # True # post"
      by (simp only: list.map concat.simps unpack word_bits_8_ff replicate_16)
        (simp add: ue_bits_def)
    from ue_bits_no_ep_pattern [OF this _ k] show False by simp
  qed
  have u: "(ucast (drop_bit 8 (0xffffffff :: guint64)) :: guint8) = 0xff"
    "(ucast (0xffffffff :: guint64) :: guint8) = 0xff" by simp_all
  have "\<not> has_ep (ucast (drop_bit 8 (0xffffffff :: guint64))
            # ucast (0xffffffff :: guint64) # ?bytes)"
    unfolding u by (rule no_ep)
  from ep_bytes_id [OF this] have ep: "ep_bytes 0xffffffff ?bytes = ?bytes" .
  have bits: "bs_bits (gst_nal_bs_init ?bytes)
                = replicate ?k False @ True # ?rb @ replicate pad False"
    by (simp add: bs_bits_def gst_nal_bs_init_def ep unpack) (simp add: ue_bits_def)
  have hd: "bs_head (gst_nal_bs_init ?bytes) < 8"
    by (simp add: gst_nal_bs_init_def)
  from k have k32: "?k \<le> 32" by simp
  from read_ue_bits [OF bits _ k32 hd]
  have res: "fst (gst_nal_bs_read_ue (gst_nal_bs_init ?bytes))
               = push_bit ?k 1 - 1 + of_nat (bl_val ?rb)" by simp
  from lo hi have "bl_val ?rb = v + 1 - 2 ^ ?k" by (simp add: bl_val_nat_bits)
  moreover from lo have "v = (2 ^ ?k - 1) + (v + 1 - 2 ^ ?k)" by simp
  then have "(of_nat v :: guint32) = of_nat (2 ^ ?k - 1) + of_nat (v + 1 - 2 ^ ?k)"
    by (metis of_nat_add)
  moreover have "(of_nat (2 ^ ?k - 1) :: guint32) = push_bit ?k 1 - 1"
    by (simp add: of_nat_diff push_bit_eq_mult)
  ultimately show ?thesis by (simp add: res)
qed

theorem read_ue_round_trip_witness:
  "(5 :: nat) < 2 ^ 16
   \<and> fst (gst_nal_bs_read_ue (gst_nal_bs_init (pack_bits (ue_bits 5)))) = 5"
  using read_ue_round_trip [of 5] by simp

subsection \<open>The slice header read from a longer range\<close>

text \<open>
  The reader is handed the bytes after the NAL header as far as the adapter holds them,
  so the bytes of the units that follow are part of its range. What it delivers from
  the first unit's bytes does not depend on them.
\<close>

lemma ep_bytes_append: "\<exists>zs. ep_bytes c (xs @ ys) = ep_bytes c xs @ zs"
proof (induction c xs rule: ep_bytes.induct)
  case (1 c)
  show ?case by simp
next
  case (2 c b rest)
  show ?case
  proof (cases "b = 0x03 \<and> c AND 0xffff = 0")
    case True
    show ?thesis
    proof (cases rest)
      case Nil
      with True show ?thesis by simp
    next
      case (Cons b2 rest2)
      from "2.IH"(1) [OF True Cons] obtain zs where
        "ep_bytes (push_bit 8 c OR ucast b2) (rest2 @ ys)
           = ep_bytes (push_bit 8 c OR ucast b2) rest2 @ zs" by auto
      with True Cons show ?thesis by simp
    qed
  next
    case False
    from "2.IH"(2) [OF False] obtain zs where
      "ep_bytes (push_bit 8 c OR ucast b) (rest @ ys)
         = ep_bytes (push_bit 8 c OR ucast b) rest @ zs" by auto
    with False show ?thesis by auto
  qed
qed

lemma bs_bits_init_append:
  "\<exists>bits. bs_bits (gst_nal_bs_init (xs @ ys)) = bs_bits (gst_nal_bs_init xs) @ bits"
proof -
  from ep_bytes_append [of "0xffffffff" xs ys] obtain zs where
    "ep_bytes 0xffffffff (xs @ ys) = ep_bytes 0xffffffff xs @ zs" by auto
  then show ?thesis by (simp add: bs_bits_def gst_nal_bs_init_def)
qed

lemma read_ue_state:
  assumes "bs_bits bs = replicate k False @ True # rb @ rest" and "length rb = k"
    and "k \<le> 32" and "bs_head bs < 8"
  shows "\<exists>bs2. gst_nal_bs_read_ue bs = (push_bit k 1 - 1 + of_nat (bl_val rb), bs2)
    \<and> bs_bits bs2 = rest \<and> bs_head bs2 < 8"
proof -
  from count_zeros_bits [OF assms(1) assms(4), of 0] assms(3) obtain bs1 where
    c: "ue_count_zeros bs 0 = (k, bs1)" and b1: "bs_bits bs1 = rb @ rest" and h1: "bs_head bs1 < 8"
    by auto
  obtain r bs2 where rd: "gst_nal_bs_read bs1 k = (r, bs2)" by (cases "gst_nal_bs_read bs1 k")
  from read_bits [OF rd assms(3) h1] b1 assms(2) have u: "unat r = bl_val rb"
    and b2: "bs_bits bs2 = rest" and h2: "bs_head bs2 < 8" by simp_all
  from u have "(of_nat (unat r) :: guint32) = of_nat (bl_val rb)" by simp
  then have "r = of_nat (bl_val rb)" by simp
  with c rd b2 h2 show ?thesis by (simp add: gst_nal_bs_read_ue_def)
qed

lemma read_ue_code:
  assumes "bs_bits bs = ue_bits v @ rest" and "v < 2 ^ 32 - 1" and "bs_head bs < 8"
  shows "\<exists>bs2. gst_nal_bs_read_ue bs = (of_nat v, bs2) \<and> bs_bits bs2 = rest \<and> bs_head bs2 < 8"
proof -
  let ?k = "ue_zeros v"
  let ?rb = "nat_bits ?k (v + 1 - 2 ^ ?k)"
  from assms(2) have "v + 1 < 2 ^ 32" by simp
  from bit_length_le [OF this] have k: "?k \<le> 32" by (simp add: ue_zeros_def)
  from ue_zeros_bounds [of v] have lo: "2 ^ ?k \<le> v + 1" and hi: "v + 1 < 2 * 2 ^ ?k" by simp_all
  from assms(1) have bits: "bs_bits bs = replicate ?k False @ True # ?rb @ rest"
    by (simp add: ue_bits_def)
  from read_ue_state [OF bits _ k assms(3)] obtain bs2 where
    rd: "gst_nal_bs_read_ue bs = (push_bit ?k 1 - 1 + of_nat (bl_val ?rb), bs2)"
    and st: "bs_bits bs2 = rest" "bs_head bs2 < 8" by auto
  from lo hi have "bl_val ?rb = v + 1 - 2 ^ ?k" by (simp add: bl_val_nat_bits)
  moreover from lo have "v = (2 ^ ?k - 1) + (v + 1 - 2 ^ ?k)" by simp
  then have "(of_nat v :: guint32) = of_nat (2 ^ ?k - 1) + of_nat (v + 1 - 2 ^ ?k)"
    by (metis of_nat_add)
  moreover have "(of_nat (2 ^ ?k - 1) :: guint32) = push_bit ?k 1 - 1"
    by (simp add: of_nat_diff push_bit_eq_mult)
  ultimately have "push_bit ?k 1 - 1 + of_nat (bl_val ?rb) = (of_nat v :: guint32)" by simp
  with rd st show ?thesis by simp
qed

lemma slice_header_types_codes:
  assumes "bs_bits (gst_nal_bs_init sl) = ue_bits mb @ ue_bits st @ rest"
    and "mb < 2 ^ 32 - 1" and "st < 2 ^ 32 - 1"
  shows "slice_header_types (sl @ ys) = (of_nat mb, of_nat st)"
proof -
  from bs_bits_init_append [of sl ys] assms(1) obtain zs where
    b0: "bs_bits (gst_nal_bs_init (sl @ ys)) = ue_bits mb @ (ue_bits st @ rest @ zs)" by auto
  have h0: "bs_head (gst_nal_bs_init (sl @ ys)) < 8" by (simp add: gst_nal_bs_init_def)
  from read_ue_code [OF b0 assms(2) h0] obtain bs1 where
    r1: "gst_nal_bs_read_ue (gst_nal_bs_init (sl @ ys)) = (of_nat mb, bs1)"
    and b1: "bs_bits bs1 = ue_bits st @ (rest @ zs)" and h1: "bs_head bs1 < 8" by auto
  from read_ue_code [OF b1 assms(3) h1] obtain bs2 where
    r2: "gst_nal_bs_read_ue bs1 = (of_nat st, bs2)" by auto
  from r1 r2 show ?thesis by (simp add: slice_header_types_def)
qed

section \<open>Properties of the parameter-set decoders\<close>

text \<open>
  C3, as the code has it. When the fields up to \<^verbatim>\<open>sps_id\<close> give an id inside the table
  and \<^verbatim>\<open>log2_max_frame_num_minus4\<close> reads as 13, \<^verbatim>\<open>gst_nal_decode_sps\<close> returns
  \<^verbatim>\<open>FALSE\<close>, and the table then holds, at that id, the entry that was there (or a fresh
  zeroed one) with \<^verbatim>\<open>profile_idc\<close> and \<^verbatim>\<open>level_idc\<close> overwritten by the values read
  and \<^verbatim>\<open>log2_max_frame_num_minus4\<close> set to 13; the other entries are as before.
\<close>

theorem sps_frame_num_13_fails:
  assumes "sps_read_ids bs = ((p, l, i), bs1)"
    and "unat i < MAX_SPS_COUNT"
    and "(ucast (fst (gst_nal_bs_read_ue (sps_high_profile p bs1))) :: guint8) = 13"
  shows "fst (gst_nal_decode_sps h bs) = False
    \<and> sps_buffers (fst (snd (gst_nal_decode_sps h bs))) =
        (sps_buffers h)(unat i \<mapsto>
           (sps_or_new h i)\<lparr>profile_idc := p, level_idc := l, log2_max_frame_num_minus4 := 13\<rparr>)"
  using assms
  by (auto simp add: gst_nal_decode_sps_def gst_h264_parse_get_sps_def store_sps_def
      split: prod.splits)

theorem sps_frame_num_13_fails_witness:
  "fst (gst_nal_decode_sps gst_h264_parse_init (gst_nal_bs_init sps13_bytes)) = False
    \<and> sps_buffers (fst (snd (gst_nal_decode_sps gst_h264_parse_init (gst_nal_bs_init sps13_bytes)))) =
        [0 \<mapsto> new0_sps\<lparr>profile_idc := 0x42, level_idc := 0x1E, log2_max_frame_num_minus4 := 13\<rparr>]"
proof -
  have a: "sps_read_ids (gst_nal_bs_init sps13_bytes)
             = ((0x42, 0x1E, 0), \<lparr>bs_data = [], bs_head = 7, bs_cache = 0xffffffff42001E8E\<rparr>)"
    by (simp add: sps13_bytes_def sps_read_ids_def bs_eval)
  have b: "unat (0 :: guint8) < MAX_SPS_COUNT"
    by (simp add: MAX_SPS_COUNT_def)
  have c: "(ucast (fst (gst_nal_bs_read_ue (sps_high_profile 0x42
              \<lparr>bs_data = [], bs_head = 7, bs_cache = 0xffffffff42001E8E\<rparr>))) :: guint8) = 13"
    by (simp add: sps_high_profile_def bs_eval)
  show ?thesis
    using sps_frame_num_13_fails [OF a b c, of gst_h264_parse_init]
    by (simp add: sps_or_new_def gst_h264_parse_init_def)
qed

text \<open>
  C3, as the claim states it, fails: decoding \<open>sps13_bytes\<close> in the initial state returns
  \<^verbatim>\<open>FALSE\<close>, and the table entry 0, absent before the call, is there after it.
\<close>

theorem sps_frame_num_13_writes_entry:
  "fst (gst_nal_decode_sps gst_h264_parse_init (gst_nal_bs_init sps13_bytes)) = False
   \<and> sps_buffers gst_h264_parse_init 0 = None
   \<and> sps_buffers (fst (snd (gst_nal_decode_sps gst_h264_parse_init
          (gst_nal_bs_init sps13_bytes)))) 0
       = Some (new0_sps\<lparr>profile_idc := 0x42, level_idc := 0x1E, log2_max_frame_num_minus4 := 13\<rparr>)"
  by (simp add: sps13_bytes_def gst_nal_decode_sps_def sps_read_ids_def bs_eval
      gst_h264_parse_get_sps_def MAX_SPS_COUNT_def gst_h264_parse_init_def sps_high_profile_def
      store_sps_def sps_or_new_def)

text \<open>
  C9. With SPS 0 known, a buffering-period message for it is read to its end, the delay
  0x5A is stored, and the function returns \<^verbatim>\<open>FALSE\<close>, the value it returns when the SPS
  cannot be found.
\<close>

theorem buffering_period_decoded_returns_false:
  "fst (gst_sei_decode_buffering_period hrd_parse (gst_nal_bs_init [0xAD, 0x00, 0x00])) = False
   \<and> initial_cpb_removal_delay
        (fst (snd (gst_sei_decode_buffering_period hrd_parse (gst_nal_bs_init [0xAD, 0x00, 0x00])))) 0
       = 0x5A"
  by (simp add: gst_sei_decode_buffering_period_def bs_eval gst_h264_parse_get_sps_def
      MAX_SPS_COUNT_def hrd_parse_def gst_h264_parse_init_def sps_or_new_def new0_sps_def
      bp_nal_delays_def bp_vcl_delays_def)

text \<open>
  C10. \<^verbatim>\<open>gst_sei_decode_buffering_period\<close> and \<^verbatim>\<open>gst_sei_decode_picture_timing\<close>
  return \<^verbatim>\<open>FALSE\<close> on every path, the end of the success path included, so
  \<^verbatim>\<open>gst_nal_decode_sei\<close> returns \<^verbatim>\<open>FALSE\<close> for every message whose payload type is
  buffering period or picture timing.
\<close>

theorem sei_decoders_return_false:
  "fst (gst_sei_decode_buffering_period h bs) = False
   \<and> fst (gst_sei_decode_picture_timing h bs) = False
   \<and> (fst (sei_ff_sum bs 0) = SEI_BUF_PERIOD \<or> fst (sei_ff_sum bs 0) = SEI_PIC_TIMING
        \<longrightarrow> fst (gst_nal_decode_sei h bs) = False)"
  by (auto simp add: gst_sei_decode_buffering_period_def gst_sei_decode_picture_timing_def
      gst_nal_decode_sei_def split: prod.splits option.splits if_splits)

theorem sei_decoders_return_false_witness:
  "fst (sei_ff_sum (gst_nal_bs_init [0x00, 0x03, 0xAD, 0x00, 0x00]) 0) = SEI_BUF_PERIOD
   \<and> fst (gst_nal_decode_sei hrd_parse (gst_nal_bs_init [0x00, 0x03, 0xAD, 0x00, 0x00])) = False"
  using sei_decoders_return_false [of hrd_parse "gst_nal_bs_init [0x00, 0x03, 0xAD, 0x00, 0x00]"]
  by (simp add: bs_eval sei_ff_sum_rec SEI_BUF_PERIOD_def)

section \<open>Properties of the forward assembler\<close>

lemma find_start_code_none: "\<not> has_start_code xs \<Longrightarrow> find_start_code xs i = - 1"
  by (induction xs i rule: find_start_code.induct) auto

lemma has_start_code_tail: "\<not> has_start_code (x # xs) \<Longrightarrow> \<not> has_start_code xs"
  by (cases xs rule: has_start_code.cases) auto

lemma find_start_code_found:
  "\<not> has_start_code xs \<Longrightarrow>
     find_start_code (xs @ 0 # 0 # 0 # 1 # e # rest) i = int (i + length xs)"
proof (induction xs arbitrary: i)
  case Nil
  then show ?case by simp
next
  case (Cons x xs)
  from Cons.prems have t: "\<not> has_start_code xs" by (rule has_start_code_tail)
  have step: "find_start_code ((x # xs) @ 0 # 0 # 0 # 1 # e # rest) i
                = find_start_code (xs @ 0 # 0 # 0 # 1 # e # rest) (i + 1)"
  proof (cases xs)
    case Nil
    then show ?thesis by simp
  next
    case c1: (Cons y ys)
    show ?thesis
    proof (cases ys)
      case Nil
      with c1 show ?thesis by simp
    next
      case c2: (Cons z zs)
      show ?thesis
      proof (cases zs)
        case Nil
        with c1 c2 show ?thesis by simp
      next
        case c3: (Cons w ws)
        with c1 c2 Cons.prems show ?thesis by (cases ws) auto
      qed
    qed
  qed
  show ?case unfolding step using Cons.IH [OF t, of "i + 1"] by simp
qed

lemma no_start_code_after_sync:
  "\<not> has_start_code xs \<Longrightarrow> \<not> has_start_code (0 # 0 # 1 # xs)"
proof (cases xs)
  case Nil
  then show ?thesis by simp
next
  case c1: (Cons y ys)
  assume n: "\<not> has_start_code xs"
  show ?thesis
  proof (cases ys)
    case Nil
    with c1 show ?thesis by simp
  next
    case c2: (Cons z zs)
    with c1 n show ?thesis by (cases zs) auto
  qed
qed

lemma take_sync_unit:
  "take (5 + length xs) (a # b # c # d # e # xs @ ys) = a # b # c # d # e # xs"
  by (simp add: eval_nat_numeral)

lemma drop_sync_unit:
  "drop (5 + length xs) (a # b # c # d # e # xs @ ys) = ys"
  by (simp add: eval_nat_numeral)

lemma find_start_code_trailing:
  "\<not> has_start_code xs \<Longrightarrow> find_start_code (xs @ [0, 0, 0, 1]) i = - 1"
proof (induction xs arbitrary: i)
  case Nil
  show ?case by simp
next
  case (Cons x xs)
  from Cons.prems have t: "\<not> has_start_code xs" by (rule has_start_code_tail)
  have step: "find_start_code ((x # xs) @ [0, 0, 0, 1]) i
                = find_start_code (xs @ [0, 0, 0, 1]) (i + 1)"
  proof (cases xs)
    case Nil
    then show ?thesis by simp
  next
    case c1: (Cons y ys)
    show ?thesis
    proof (cases ys)
      case Nil
      with c1 show ?thesis by simp
    next
      case c2: (Cons z zs)
      show ?thesis
      proof (cases zs)
        case Nil
        with c1 c2 show ?thesis by simp
      next
        case c3: (Cons w ws)
        with c1 c2 Cons.prems show ?thesis by (cases ws) auto
      qed
    qed
  qed
  show ?case unfolding step using Cons.IH [OF t, of "i + 1"] by simp
qed

lemma forward_loop_one_unit:
  assumes bytestream: "\<not> packetized h" "nal_length_size h = 4"
    and sp: "\<not> has_start_code (s # sp)" and sl: "\<not> has_start_code (c # sl)"
  shows "forward_loop peer ts (h\<lparr>adapter := 0 # 0 # 0 # 1 # s # sp @ 0 # 0 # 0 # 1 # c # sl\<rparr>) =
           (peer \<lparr>buf_data = start_code @ s # sp, buf_timestamp = ts, buf_discont = discont h,
                   buf_delta_unit = forward_delta_unit (s # sp @ 0 # 0 # 0 # 1 # c # sl)\<rparr>,
            h\<lparr>adapter := start_code @ c # sl, discont := False,
              pushed := pushed h @
                [\<lparr>buf_data = start_code @ s # sp, buf_timestamp = ts, buf_discont = discont h,
                  buf_delta_unit = forward_delta_unit (s # sp @ 0 # 0 # 0 # 1 # c # sl)\<rparr>]\<rparr>)"
proof -
  let ?d = "0 # 0 # 0 # 1 # s # sp @ 0 # 0 # 0 # 1 # c # sl"
  let ?h0 = "h\<lparr>adapter := ?d\<rparr>"
  let ?out = "\<lparr>buf_data = start_code @ s # sp, buf_timestamp = ts, buf_discont = discont h,
                buf_delta_unit = forward_delta_unit (s # sp @ 0 # 0 # 0 # 1 # c # sl)\<rparr>"
  let ?h1 = "h\<lparr>adapter := start_code @ c # sl, discont := False, pushed := pushed h @ [?out]\<rparr>"
  have pos0: "next_nalu_pos ?h0 = int (5 + length sp)"
  proof -
    have "find_start_code ((0 # 0 # 1 # s # sp) @ 0 # 0 # 0 # 1 # c # sl) 1
            = int (1 + length (0 # 0 # 1 # s # sp))"
      by (rule find_start_code_found) (rule no_start_code_after_sync [OF sp])
    then show ?thesis using bytestream by (simp add: next_nalu_pos_def)
  qed
  have out0: "forward_outbuf ?h0 ts = ?out"
    using bytestream
    by (simp add: forward_outbuf_def pos0 start_code_def take_sync_unit del: of_nat_add)
  have take0: "forward_take ?h0 ts = ?h1"
    by (simp add: forward_take_def out0 pos0 start_code_def drop_sync_unit del: of_nat_add)
  have pos1: "next_nalu_pos ?h1 = - 1"
  proof -
    have "find_start_code (0 # 0 # 1 # c # sl) 1 = - 1"
      by (rule find_start_code_none) (rule no_start_code_after_sync [OF sl])
    then show ?thesis using bytestream by (simp add: next_nalu_pos_def start_code_def)
  qed
  have loop1: "forward_loop peer ts ?h1 = (GST_FLOW_OK, ?h1)"
    using pos1 bytestream by (intro forward_loop_wait) (simp_all add: start_code_def)
  have "forward_loop peer ts ?h0 =
          (if peer ?out = GST_FLOW_OK then forward_loop peer ts ?h1 else (peer ?out, ?h1))"
    using forward_loop_push [of ?h0 peer ts] bytestream
    by (simp add: pos0 out0 take0 del: of_nat_add)
  then show ?thesis by (simp add: loop1)
qed

lemma forward_loop_no_unit:
  assumes bytestream: "\<not> packetized h" "nal_length_size h = 4"
    and sl: "\<not> has_start_code (c # sl)"
  shows "forward_loop peer ts (h\<lparr>adapter := 0 # 0 # 0 # 1 # c # sl @ [0, 0, 0, 1]\<rparr>) =
           (GST_FLOW_OK, h\<lparr>adapter := 0 # 0 # 0 # 1 # c # sl @ [0, 0, 0, 1]\<rparr>)"
proof -
  let ?h0 = "h\<lparr>adapter := 0 # 0 # 0 # 1 # c # sl @ [0, 0, 0, 1]\<rparr>"
  have "find_start_code ((0 # 0 # 1 # c # sl) @ [0, 0, 0, 1]) 1 = - 1"
    by (rule find_start_code_trailing) (rule no_start_code_after_sync [OF sl])
  then have "next_nalu_pos ?h0 = - 1" using bytestream by (simp add: next_nalu_pos_def)
  with bytestream show ?thesis by (intro forward_loop_wait) simp_all
qed

lemma sps_not_delta:
  "(ucast (s AND 0x1f) :: gint) = NAL_SPS \<Longrightarrow> forward_delta_unit (s # rest) = False"
  by (simp add: forward_delta_unit_def NAL_SLICE_def NAL_SLICE_IDR_def NAL_SPS_def NAL_PPS_def)

lemma intra_slice_not_delta:
  assumes "(ucast (c AND 0x1f) :: gint) = NAL_SLICE_IDR"
    and "bs_bits (gst_nal_bs_init sl) = ue_bits mb @ ue_bits st @ rest" and "mb < 2 ^ 32 - 1"
    and "st = 2 \<or> st = 4 \<or> st = 7 \<or> st = 9"
  shows "forward_delta_unit (c # sl @ ys) = False"
proof -
  from assms(4) have st: "st < 2 ^ 32 - 1" by auto
  have "slice_header_types (sl @ ys) = (of_nat mb, of_nat st)"
    using assms(2,3) st by (rule slice_header_types_codes)
  moreover from assms(4) have "slice_type_delta (of_nat st) = False"
    by (auto simp add: slice_type_delta_def)
  ultimately show ?thesis
    using assms(1)
    by (simp add: forward_delta_unit_def NAL_SLICE_def NAL_SLICE_IDR_def)
qed

text \<open>The example slice bytes 88 84 00: the codes of 0 and of 7, then 16 more bits.\<close>

lemma bit_length_0: "bit_length 0 = 0"
  by (simp add: bit_length.simps [of 0])

lemma bit_length_1: "bit_length (Suc 0) = 1"
  by (simp add: bit_length.simps [of "Suc 0"] bit_length_0)

lemma ue_bits_0: "ue_bits 0 = [True]"
  by (simp add: ue_bits_def ue_zeros_def bit_length_1)

lemma bit_length_8: "bit_length 8 = 4"
proof -
  have "bit_length 2 = 2" by (simp add: bit_length.simps [of 2] bit_length_1)
  then have "bit_length 4 = 3" by (simp add: bit_length.simps [of 4])
  then show ?thesis by (simp add: bit_length.simps [of 8])
qed

lemma nat_bits_3: "nat_bits 3 x = [x div 4 mod 2 = 1, x div 2 mod 2 = 1, x mod 2 = 1]"
  by (simp add: numeral_3_eq_3)

lemma ue_bits_7: "ue_bits 7 = [False, False, False, True, False, False, False]"
proof -
  have z: "ue_zeros 7 = 3" by (simp add: ue_zeros_def bit_length_8)
  have r: "replicate 3 False = [False, False, False]" by (simp add: numeral_3_eq_3)
  show ?thesis by (simp add: ue_bits_def z r nat_bits_3)
qed

lemma word_bits_8:
  "word_bits 8 w = [bit w 7, bit w 6, bit w 5, bit w 4, bit w 3, bit w 2, bit w 1, bit w 0]"
  by (simp add: eval_nat_numeral)


lemma slice_bits:
  "bs_bits (gst_nal_bs_init [0x88, 0x84, 0x00])
     = [True, False, False, False, True, False, False, False,
        True, False, False, False, False, True, False, False,
        False, False, False, False, False, False, False, False]"
  by (simp add: bs_bits_def gst_nal_bs_init_def word_bits_8)

text \<open>
  C5, as the code has it. A byte-stream element with an empty adapter is given one buffer
  holding a start code, an SPS unit (header byte of NAL type 7), a second start code and
  an IDR slice (header byte of NAL type 5), neither unit holding a start code. The bits
  that the reader delivers from the slice's bytes begin with the Exp-Golomb codes of
  \<^verbatim>\<open>first_mb_in_slice\<close> and of a \<^verbatim>\<open>slice_type\<close> 2, 4, 7 or 9, the types of an I or SI
  slice. Then:

  \<^item> the call pushes exactly one buffer, the first start code with the SPS unit, not a
    delta unit, with the timestamp of the input and the pending discontinuity flag; the
    second start code and the slice stay in the adapter, and the result of the call is
    the peer's answer to the one push;

  \<^item> a next input that is just a start code pushes nothing: the loop looks for a start
    code followed by at least one more byte;

  \<^item> a next input that is a start code and a unit pushes exactly one more buffer, the
    second start code with the IDR slice, not a delta unit, with the timestamp of that
    next input and no discontinuity flag; the new start code and its unit stay in the
    adapter in turn.
\<close>

theorem forward_second_unit_waits:
  assumes bytestream: "\<not> packetized h" "nal_length_size h = 4"
    and fresh: "adapter h = []"
    and data: "buf_data b = start_code @ (s # sp) @ start_code @ (c # sl)"
    and sp: "\<not> has_start_code (s # sp)" "(ucast (s AND 0x1f) :: gint) = NAL_SPS"
    and sl: "\<not> has_start_code (c # sl)" "(ucast (c AND 0x1f) :: gint) = NAL_SLICE_IDR"
    and header: "bs_bits (gst_nal_bs_init sl) = ue_bits mb @ ue_bits st @ rest"
      "mb < 2 ^ 32 - 1" "st = 2 \<or> st = 4 \<or> st = 7 \<or> st = 9"
    and after_first: "h1 = snd (gst_h264_parse_chain_forward peer h False b)"
    and only_code: "buf_data b2 = start_code"
    and next_unit: "buf_data b3 = start_code @ (e # u)" "\<not> has_start_code (e # u)"
  shows "gst_h264_parse_chain_forward peer h False b =
           (peer \<lparr>buf_data = start_code @ s # sp, buf_timestamp = buf_timestamp b,
                   buf_discont = discont h, buf_delta_unit = False\<rparr>,
            h\<lparr>adapter := start_code @ c # sl, discont := False,
              pushed := pushed h @
                [\<lparr>buf_data = start_code @ s # sp, buf_timestamp = buf_timestamp b,
                  buf_discont = discont h, buf_delta_unit = False\<rparr>]\<rparr>)
     \<and> gst_h264_parse_chain_forward peer h1 False b2 =
           (GST_FLOW_OK, h1\<lparr>adapter := start_code @ c # sl @ start_code\<rparr>)
     \<and> gst_h264_parse_chain_forward peer h1 False b3 =
           (peer \<lparr>buf_data = start_code @ c # sl, buf_timestamp = buf_timestamp b3,
                   buf_discont = False, buf_delta_unit = False\<rparr>,
            h1\<lparr>adapter := start_code @ e # u,
               pushed := pushed h @
                 [\<lparr>buf_data = start_code @ s # sp, buf_timestamp = buf_timestamp b,
                   buf_discont = discont h, buf_delta_unit = False\<rparr>,
                  \<lparr>buf_data = start_code @ c # sl, buf_timestamp = buf_timestamp b3,
                   buf_discont = False, buf_delta_unit = False\<rparr>]\<rparr>)"
proof -
  let ?o1 = "\<lparr>buf_data = start_code @ s # sp, buf_timestamp = buf_timestamp b,
               buf_discont = discont h, buf_delta_unit = False\<rparr>"
  let ?h1 = "h\<lparr>adapter := start_code @ c # sl, discont := False, pushed := pushed h @ [?o1]\<rparr>"
  have h0: "h\<lparr>adapter := adapter h @ buf_data b\<rparr>
              = h\<lparr>adapter := 0 # 0 # 0 # 1 # s # sp @ 0 # 0 # 0 # 1 # c # sl\<rparr>"
    using fresh data by (simp add: start_code_def)
  have first: "gst_h264_parse_chain_forward peer h False b = (peer ?o1, ?h1)"
    using forward_loop_one_unit [OF bytestream sp(1) sl(1), of peer "buf_timestamp b"]
    by (simp add: gst_h264_parse_chain_forward_def h0 sps_not_delta [OF sp(2)])
  from after_first first have h1: "h1 = ?h1" by simp
  have bs1: "\<not> packetized h1" "nal_length_size h1 = 4"
    using bytestream by (simp_all add: h1)
  have a2: "h1\<lparr>adapter := adapter h1 @ buf_data b2\<rparr>
              = h1\<lparr>adapter := 0 # 0 # 0 # 1 # c # sl @ [0, 0, 0, 1]\<rparr>"
    using only_code by (simp add: h1 start_code_def)
  have second: "gst_h264_parse_chain_forward peer h1 False b2 =
                  (GST_FLOW_OK, h1\<lparr>adapter := start_code @ c # sl @ start_code\<rparr>)"
    using forward_loop_no_unit [OF bs1 sl(1), of peer "buf_timestamp b2"]
    by (simp add: gst_h264_parse_chain_forward_def a2 start_code_def)
  have a3: "h1\<lparr>adapter := adapter h1 @ buf_data b3\<rparr>
              = h1\<lparr>adapter := 0 # 0 # 0 # 1 # c # sl @ 0 # 0 # 0 # 1 # e # u\<rparr>"
    using next_unit(1) by (simp add: h1 start_code_def)
  have d3: "forward_delta_unit (c # sl @ 0 # 0 # 0 # 1 # e # u) = False"
    using sl(2) header by (rule intra_slice_not_delta)
  have third: "gst_h264_parse_chain_forward peer h1 False b3 =
      (peer \<lparr>buf_data = start_code @ c # sl, buf_timestamp = buf_timestamp b3,
              buf_discont = False, buf_delta_unit = False\<rparr>,
       h1\<lparr>adapter := start_code @ e # u,
          pushed := pushed h @
            [?o1, \<lparr>buf_data = start_code @ c # sl, buf_timestamp = buf_timestamp b3,
                   buf_discont = False, buf_delta_unit = False\<rparr>]\<rparr>)"
    using forward_loop_one_unit [OF bs1 sl(1) next_unit(2), of peer "buf_timestamp b3"]
    by (simp add: gst_h264_parse_chain_forward_def a3 d3) (simp add: h1)
  from first second third show ?thesis by simp
qed

theorem forward_second_unit_waits_witness:
  "bs_bits (gst_nal_bs_init [0x88, 0x84, 0x00])
     = ue_bits 0 @ ue_bits 7
         @ [True, False, False, False, False, True, False, False,
            False, False, False, False, False, False, False, False]
   \<and> gst_h264_parse_chain_forward peer_ok bytestream_parse False
       (ts_buffer 0 (start_code @ [0x67, 0x42, 0x00, 0x1E] @ start_code @ [0x65, 0x88, 0x84, 0x00]))
     = (GST_FLOW_OK,
        bytestream_parse\<lparr>adapter := start_code @ [0x65, 0x88, 0x84, 0x00],
          pushed := [\<lparr>buf_data = start_code @ [0x67, 0x42, 0x00, 0x1E], buf_timestamp = 0,
                      buf_discont = False, buf_delta_unit = False\<rparr>]\<rparr>)
   \<and> gst_h264_parse_chain_forward peer_ok
       (bytestream_parse\<lparr>adapter := start_code @ [0x65, 0x88, 0x84, 0x00],
          pushed := [\<lparr>buf_data = start_code @ [0x67, 0x42, 0x00, 0x1E], buf_timestamp = 0,
                      buf_discont = False, buf_delta_unit = False\<rparr>]\<rparr>)
       False (ts_buffer 1 start_code)
     = (GST_FLOW_OK,
        bytestream_parse\<lparr>adapter := start_code @ [0x65, 0x88, 0x84, 0x00] @ start_code,
          pushed := [\<lparr>buf_data = start_code @ [0x67, 0x42, 0x00, 0x1E], buf_timestamp = 0,
                      buf_discont = False, buf_delta_unit = False\<rparr>]\<rparr>)
   \<and> gst_h264_parse_chain_forward peer_ok
       (bytestream_parse\<lparr>adapter := start_code @ [0x65, 0x88, 0x84, 0x00],
          pushed := [\<lparr>buf_data = start_code @ [0x67, 0x42, 0x00, 0x1E], buf_timestamp = 0,
                      buf_discont = False, buf_delta_unit = False\<rparr>]\<rparr>)
       False (ts_buffer 1 (start_code @ [0x09, 0x10]))
     = (GST_FLOW_OK,
        bytestream_parse\<lparr>adapter := start_code @ [0x09, 0x10],
          pushed := [\<lparr>buf_data = start_code @ [0x67, 0x42, 0x00, 0x1E], buf_timestamp = 0,
                      buf_discont = False, buf_delta_unit = False\<rparr>,
                     \<lparr>buf_data = start_code @ [0x65, 0x88, 0x84, 0x00], buf_timestamp = 1,
                      buf_discont = False, buf_delta_unit = False\<rparr>]\<rparr>)"
proof -
  let ?b = "ts_buffer 0 (start_code @ [0x67, 0x42, 0x00, 0x1E] @ start_code @ [0x65, 0x88, 0x84, 0x00])"
  let ?h1 = "bytestream_parse\<lparr>adapter := start_code @ [0x65, 0x88, 0x84, 0x00],
          pushed := [\<lparr>buf_data = start_code @ [0x67, 0x42, 0x00, 0x1E], buf_timestamp = 0,
                      buf_discont = False, buf_delta_unit = False\<rparr>]\<rparr>"
  have a: "\<not> packetized bytestream_parse" "nal_length_size bytestream_parse = 4"
    "adapter bytestream_parse = []"
    by (simp_all add: bytestream_parse_def gst_h264_parse_init_def)
  have b: "buf_data ?b
             = start_code @ (0x67 # [0x42, 0x00, 0x1E]) @ start_code @ (0x65 # [0x88, 0x84, 0x00])"
    by (simp add: ts_buffer_def)
  have c: "\<not> has_start_code (0x67 # [0x42, 0x00, 0x1E])"
    "(ucast ((0x67 :: guint8) AND 0x1f) :: gint) = NAL_SPS"
    "\<not> has_start_code (0x65 # [0x88, 0x84, 0x00])"
    "(ucast ((0x65 :: guint8) AND 0x1f) :: gint) = NAL_SLICE_IDR"
    by (simp_all add: NAL_SPS_def NAL_SLICE_IDR_def)
  have d: "bs_bits (gst_nal_bs_init [0x88, 0x84, 0x00])
     = ue_bits 0 @ ue_bits 7
         @ [True, False, False, False, False, True, False, False,
            False, False, False, False, False, False, False, False]"
    by (simp add: slice_bits ue_bits_0 ue_bits_7)
  have e: "(0 :: nat) < 2 ^ 32 - 1" "(7 :: nat) = 2 \<or> (7 :: nat) = 4 \<or> (7 :: nat) = 7 \<or> (7 :: nat) = 9"
    by simp_all
  have f: "buf_data (ts_buffer 1 start_code) = start_code"
    "buf_data (ts_buffer 1 (start_code @ [0x09, 0x10])) = start_code @ (0x09 # [0x10])"
    "\<not> has_start_code (0x09 # [0x10])"
    by (simp_all add: ts_buffer_def)
  note t = forward_second_unit_waits [OF a b c d e refl f, of peer_ok]
  from t have first: "gst_h264_parse_chain_forward peer_ok bytestream_parse False ?b
                        = (GST_FLOW_OK, ?h1)"
    by (simp add: peer_ok_def bytestream_parse_def gst_h264_parse_init_def ts_buffer_def)
  then have s: "snd (gst_h264_parse_chain_forward peer_ok bytestream_parse False ?b) = ?h1"
    by simp
  from t [unfolded s] d first show ?thesis
    by (simp add: peer_ok_def ts_buffer_def bytestream_parse_def gst_h264_parse_init_def)
qed

text \<open>
  C5, as the claim states it, fails: for the buffer 00 00 00 01 67 42 00 1E 00 00 00 01 65
  88 84 00 the call pushes one buffer, the SPS unit, and the IDR slice is still in the
  adapter when it returns.
\<close>

theorem forward_two_units_one_pushed:
  "pushed (snd (gst_h264_parse_chain_forward peer_ok bytestream_parse False
     (ts_buffer 0 (start_code @ [0x67, 0x42, 0x00, 0x1E] @ start_code @ [0x65, 0x88, 0x84, 0x00]))))
   = [\<lparr>buf_data = start_code @ [0x67, 0x42, 0x00, 0x1E], buf_timestamp = 0,
        buf_discont = False, buf_delta_unit = False\<rparr>]
   \<and> adapter (snd (gst_h264_parse_chain_forward peer_ok bytestream_parse False
     (ts_buffer 0 (start_code @ [0x67, 0x42, 0x00, 0x1E] @ start_code @ [0x65, 0x88, 0x84, 0x00]))))
   = start_code @ [0x65, 0x88, 0x84, 0x00]"
  by (simp add: fwd_eval bs_eval bytestream_parse_def gst_h264_parse_init_def peer_ok_def
      ts_buffer_def start_code_def)

text \<open>
  C6. With 4-byte lengths and \<^verbatim>\<open>split-packetized\<close>, the buffer FF FF FF FF 65 88 declares
  a unit of 4294967295 bytes where 2 are left. \<^verbatim>\<open>nalu_size + nal_length_size\<close> wraps
  around to 3, which is not above the 6 bytes available, so the length is not replaced by
  2: it stays 4294967295, and the element pushes the 3 bytes FF FF FF as a unit and keeps
  FF 65 88.
\<close>

theorem nalu_size_wraps_around:
  "fix_nalu_size 4 6 (nalu_size_be [0xFF, 0xFF, 0xFF, 0xFF]) = 0xFFFFFFFF
   \<and> gst_h264_parse_chain_forward peer_ok split_parse False
       (ts_buffer 0 [0xFF, 0xFF, 0xFF, 0xFF, 0x65, 0x88])
     = (GST_FLOW_OK,
        split_parse\<lparr>adapter := [0xFF, 0x65, 0x88],
          pushed := [\<lparr>buf_data = [0xFF, 0xFF, 0xFF], buf_timestamp = 0,
                      buf_discont = False, buf_delta_unit = False\<rparr>]\<rparr>)"
  by (simp add: fwd_eval bs_eval split_parse_def gst_h264_parse_init_def peer_ok_def ts_buffer_def
      word_le_nat_alt word_less_nat_alt)

section \<open>Properties of the reverse assembler\<close>

lemma map_enumerate_pos:
  "0 < n \<Longrightarrow> map (\<lambda>(k, l). g (k = (0::nat)) l) (enumerate n xs) = map (g False) xs"
  by (induction xs arbitrary: n) auto

lemma flush_links_rest: "snd (flush_links peer False res links) = map (flush_buffer False) links"
  by (induction links arbitrary: res) (simp_all add: case_prod_unfold)

lemma flush_links_emits:
  "snd (flush_links peer True res links)
     = map (\<lambda>(k, l). flush_buffer (k = 0) l) (enumerate 0 links)"
proof (cases links)
  case Nil
  then show ?thesis by simp
next
  case (Cons l rest)
  have "snd (flush_links peer False (peer (flush_buffer True l)) rest) = map (flush_buffer False) rest"
    by (rule flush_links_rest)
  then show ?thesis
    using map_enumerate_pos [of "Suc 0" flush_buffer rest]
    by (simp add: Cons case_prod_unfold)
qed

text \<open>
  C7. When \<^verbatim>\<open>have_i_frame\<close> is set and the buffer to queue is classified as a slice that
  is not an I frame, \<^verbatim>\<open>gst_h264_parse_queue_buffer\<close> first flushes the queue: it pushes
  the held units in queue order, the first with \<^verbatim>\<open>DISCONT\<close> and the others without, each
  a delta unit exactly when it is not an I frame; then the queue holds the new unit alone
  and \<^verbatim>\<open>have_i_frame\<close> is clear.
\<close>

theorem queue_non_i_slice_flushes:
  assumes "have_i_frame parse"
    and "queue_link parse b = Some link"
    and "slice link" and "\<not> i_frame link"
  shows "\<exists>res parse1. gst_h264_parse_queue_buffer peer parse b = Some (res, parse1)
    \<and> pushed parse1 = pushed parse @
         map (\<lambda>(k, l). (buffer l)\<lparr>buf_discont := (k = 0), buf_delta_unit := \<not> i_frame l\<rparr>)
           (enumerate 0 (decode parse))
    \<and> decode parse1 = [link]
    \<and> \<not> have_i_frame parse1"
  using assms flush_links_emits [of peer GST_FLOW_OK "decode parse"]
  by (simp add: gst_h264_parse_queue_buffer_def queue_flush_def gst_h264_parse_flush_decode_def
      queue_prepend_def flush_buffer_def case_prod_unfold)


theorem queue_non_i_slice_flushes_witness:
  "\<exists>res parse1.
     gst_h264_parse_queue_buffer peer_ok
       (packetized_parse\<lparr>decode := [i_link 3, p_link 4], decode_len := 2, have_i_frame := True\<rparr>)
       (ts_buffer 2 p_unit) = Some (res, parse1)
     \<and> pushed parse1 =
         [(ts_buffer 3 i_unit)\<lparr>buf_discont := True, buf_delta_unit := False\<rparr>,
          (ts_buffer 4 p_unit)\<lparr>buf_discont := False, buf_delta_unit := True\<rparr>]
     \<and> decode parse1 = [p_link 2]
     \<and> \<not> have_i_frame parse1"
proof -
  let ?parse = "packetized_parse\<lparr>decode := [i_link 3, p_link 4], decode_len := 2, have_i_frame := True\<rparr>"
  have a: "have_i_frame ?parse" by simp
  have b: "queue_link ?parse (ts_buffer 2 p_unit) = Some (p_link 2)"
    using scan_p_unit [of 2] by (simp add: queue_link_def packetized_parse_def)
  have c: "slice (p_link 2)" "\<not> i_frame (p_link 2)" by (simp_all add: p_link_def)
  show ?thesis
    using queue_non_i_slice_flushes [OF a b c, of peer_ok]
    by (simp add: packetized_parse_def gst_h264_parse_init_def i_link_def p_link_def)
qed

text \<open>
  C8, as the code has it. A packetized element with empty gather list and decode queue is
  given four buffers classified as P, P, I, P slices, then a discontinuity. The
  discontinuity pushes the third and the fourth buffer, the third with \<^verbatim>\<open>DISCONT\<close> and
  not a delta unit, the fourth a delta unit, and leaves the first two in the decode queue;
  flushing the queue (as end of stream does) then pushes the first with \<^verbatim>\<open>DISCONT\<close> and
  the second, both delta units.
\<close>

theorem reverse_emits_group_of_pictures:
  assumes pk: "packetized h"
    and start: "gather h = []" "decode h = []" "\<not> have_i_frame h"
    and l1: "nal_scan True (nal_length_size h) (buf_data b1) (gst_nal_list_new b1) = Some l1"
            "slice l1" "\<not> i_frame l1"
    and l2: "nal_scan True (nal_length_size h) (buf_data b2) (gst_nal_list_new b2) = Some l2"
            "slice l2" "\<not> i_frame l2"
    and l3: "nal_scan True (nal_length_size h) (buf_data b3) (gst_nal_list_new b3) = Some l3"
            "slice l3" "i_frame l3"
    and l4: "nal_scan True (nal_length_size h) (buf_data b4) (gst_nal_list_new b4) = Some l4"
            "slice l4" "\<not> i_frame l4"
  shows "\<exists>h1. chain_reverse_all peer h
            [(False, Some b1), (False, Some b2), (False, Some b3), (False, Some b4), (True, None)]
           = Some h1
    \<and> pushed h1 = pushed h @ [flush_buffer True l3, flush_buffer False l4]
    \<and> decode h1 = [l1, l2]
    \<and> pushed (snd (gst_h264_parse_flush_decode peer h1))
        = pushed h @ [flush_buffer True l3, flush_buffer False l4,
                      flush_buffer True l1, flush_buffer False l2]"
  using assms
  by (simp add: gst_h264_parse_chain_reverse_def reverse_add_def reverse_discont_def
      gst_h264_parse_queue_buffer_def queue_link_def queue_flush_def queue_prepend_def
      gst_h264_parse_flush_decode_def case_prod_unfold)



theorem reverse_emits_group_of_pictures_witness:
  "\<exists>h1. chain_reverse_all peer_ok packetized_parse
            [(False, Some (ts_buffer 1 p_unit)), (False, Some (ts_buffer 2 p_unit)),
             (False, Some (ts_buffer 3 i_unit)), (False, Some (ts_buffer 4 p_unit)), (True, None)]
           = Some h1
    \<and> pushed h1 = [flush_buffer True (i_link 3), flush_buffer False (p_link 4)]
    \<and> decode h1 = [p_link 1, p_link 2]
    \<and> pushed (snd (gst_h264_parse_flush_decode peer_ok h1))
        = [flush_buffer True (i_link 3), flush_buffer False (p_link 4),
           flush_buffer True (p_link 1), flush_buffer False (p_link 2)]"
proof -
  have a: "packetized packetized_parse" "gather packetized_parse = []"
    "decode packetized_parse = []" "\<not> have_i_frame packetized_parse"
    by (simp_all add: packetized_parse_def gst_h264_parse_init_def)
  have n: "nal_length_size packetized_parse = 4"
    by (simp add: packetized_parse_def)
  have p: "slice (p_link t)" "\<not> i_frame (p_link t)" for t by (simp_all add: p_link_def)
  have i: "slice (i_link t)" "i_frame (i_link t)" for t by (simp_all add: i_link_def)
  show ?thesis
    using reverse_emits_group_of_pictures [OF a
        scan_p_unit [of 1, folded n] p scan_p_unit [of 2, folded n] p
        scan_i_unit [of 3, folded n] i scan_p_unit [of 4, folded n] p, of peer_ok]
    by (simp add: packetized_parse_def gst_h264_parse_init_def)
qed

text \<open>
  C8, as the claim states it, fails: with the four units stamped 1 to 4, end of stream
  pushes them in the order 3, 4, 1, 2 with the delta-unit flags false, true, true, true,
  not in the order 1, 2, 3, 4 with true, true, false, true.
\<close>

theorem reverse_emits_i_slice_first:
  "map_option (\<lambda>h1. map (\<lambda>b. (buf_timestamp b, buf_delta_unit b)) (pushed h1))
     (case chain_reverse_all peer_ok packetized_parse
            [(False, Some (ts_buffer 1 p_unit)), (False, Some (ts_buffer 2 p_unit)),
             (False, Some (ts_buffer 3 i_unit)), (False, Some (ts_buffer 4 p_unit))] of
        None \<Rightarrow> None
      | Some h4 \<Rightarrow> reverse_eos peer_ok h4)
   = Some [(3, False), (4, True), (1, True), (2, True)]"
  by (simp add: gst_h264_parse_chain_reverse_def reverse_add_def reverse_discont_def reverse_eos_def
      gst_h264_parse_queue_buffer_def queue_flush_def queue_prepend_def
      gst_h264_parse_flush_decode_def flush_buffer_def queue_eval bs_eval
      packetized_parse_def gst_h264_parse_init_def ts_buffer_def p_unit_def i_unit_def peer_ok_def)

section \<open>Properties of the flush\<close>

text \<open>
  C4, as the code has it. \<^verbatim>\<open>gst_h264_parse_clear_queues\<close> is idempotent; after it the
  gather list, the decode queue, the carry-over buffer and the adapter are empty and
  \<^verbatim>\<open>have_i_frame\<close> is false; the SPS and PPS tables are what they were before it.
\<close>

theorem clear_queues_idempotent:
  "gst_h264_parse_clear_queues (gst_h264_parse_clear_queues h) = gst_h264_parse_clear_queues h
   \<and> gather (gst_h264_parse_clear_queues h) = []
   \<and> decode (gst_h264_parse_clear_queues h) = []
   \<and> decode_len (gst_h264_parse_clear_queues h) = 0
   \<and> prev (gst_h264_parse_clear_queues h) = None
   \<and> adapter (gst_h264_parse_clear_queues h) = []
   \<and> have_i_frame (gst_h264_parse_clear_queues h) = False
   \<and> sps_buffers (gst_h264_parse_clear_queues h) = sps_buffers h
   \<and> pps_buffers (gst_h264_parse_clear_queues h) = pps_buffers h"
  by (simp add: gst_h264_parse_clear_queues_def)

text \<open>
  C4, as the claim states it, fails: in \<open>hrd_parse\<close> the SPS table holds entry 0, and it
  still holds it after one flush and after two.
\<close>

theorem clear_queues_keeps_sps:
  "sps_buffers (gst_h264_parse_clear_queues hrd_parse) 0 \<noteq> None
   \<and> sps_buffers (gst_h264_parse_clear_queues (gst_h264_parse_clear_queues hrd_parse)) 0 \<noteq> None"
  by (simp add: gst_h264_parse_clear_queues_def hrd_parse_def)

end
